theory Spec2Isabelle
  imports Main "HOL-Library.Char_ord" "HOL-Library.List_Lexorder" "HOL-Library.Sublist"
    "HOL-Library.Multiset"
begin

section \<open>Python strings\<close>

text \<open>
  The module \<^verbatim>\<open>beancount/reports/convert_reports.py\<close> turns ledger directives into
  the text of Ledger and HLedger. Text is modelled as \<^typ>\<open>string\<close>; a character is
  read as a code point below 256. The character classes below are those of Python 3's
  \<^verbatim>\<open>re\<close> and \<^verbatim>\<open>str\<close> on that range.
\<close>

definition is_upper :: "char \<Rightarrow> bool" where
  \<comment> \<open>the regex class \<^verbatim>\<open>[A-Z]\<close>\<close>
  "is_upper c = (c \<in> set ''ABCDEFGHIJKLMNOPQRSTUVWXYZ'')"

definition is_lower :: "char \<Rightarrow> bool" where
  "is_lower c = (c \<in> set ''abcdefghijklmnopqrstuvwxyz'')"

definition is_digit :: "char \<Rightarrow> bool" where
  \<comment> \<open>the regex class \<^verbatim>\<open>[0-9]\<close>\<close>
  "is_digit c = (c \<in> set ''0123456789'')"

definition latin1_alnum :: "nat \<Rightarrow> bool" where
  \<comment> \<open>the code points 128..255 that \<^verbatim>\<open>str.isalnum\<close> accepts\<close>
  "latin1_alnum n =
     (n \<in> {170, 178, 179, 181, 185, 186, 188, 189, 190} \<or>
      (192 \<le> n \<and> n \<le> 214) \<or> (216 \<le> n \<and> n \<le> 246) \<or> (248 \<le> n \<and> n \<le> 255))"

definition is_word :: "char \<Rightarrow> bool" where
  \<comment> \<open>the regex class \<^verbatim>\<open>\w\<close> of a \<^verbatim>\<open>str\<close> pattern: alphanumeric or underscore\<close>
  "is_word c =
     (is_upper c \<or> is_lower c \<or> is_digit c \<or> c = CHR ''_'' \<or> latin1_alnum (of_char c))"

definition is_space :: "char \<Rightarrow> bool" where
  \<comment> \<open>\<^verbatim>\<open>str.isspace\<close>, the characters \<^verbatim>\<open>str.rstrip()\<close> removes\<close>
  "is_space c = ((of_char c :: nat) \<in> {9, 10, 11, 12, 13, 28, 29, 30, 31, 32, 133, 160})"

definition ljust :: "nat \<Rightarrow> string \<Rightarrow> string" where
  \<comment> \<open>the format spec \<^verbatim>\<open>{:N}\<close> and \<^verbatim>\<open>{:<N}\<close> on a string: pad on the right, never cut\<close>
  "ljust width s = s @ replicate (width - length s) CHR '' ''"

definition rjust :: "nat \<Rightarrow> string \<Rightarrow> string" where
  \<comment> \<open>the format spec \<^verbatim>\<open>{:>N}\<close>: pad on the left, never cut\<close>
  "rjust width s = replicate (width - length s) CHR '' '' @ s"

definition rstrip :: "string \<Rightarrow> string" where
  "rstrip s = rev (dropWhile is_space (rev s))"

definition lstrip_chars :: "string \<Rightarrow> string \<Rightarrow> string" where
  \<comment> \<open>\<^verbatim>\<open>s.lstrip(chars)\<close>\<close>
  "lstrip_chars chars s = dropWhile (\<lambda>c. c \<in> set chars) s"

definition rstrip_chars :: "string \<Rightarrow> string \<Rightarrow> string" where
  \<comment> \<open>\<^verbatim>\<open>s.rstrip(chars)\<close>\<close>
  "rstrip_chars chars s = rev (dropWhile (\<lambda>c. c \<in> set chars) (rev s))"

fun join :: "string \<Rightarrow> string list \<Rightarrow> string" where
  "join sep [] = []"
| "join sep [x] = x"
| "join sep (x # y # zs) = x @ sep @ join sep (y # zs)"

definition truthy :: "string option \<Rightarrow> bool" where
  \<comment> \<open>the truth value of an optional string: \<^verbatim>\<open>None\<close> and \<^verbatim>\<open>''\<close> are false\<close>
  "truthy v = (case v of None \<Rightarrow> False | Some s \<Rightarrow> s \<noteq> [])"

definition or_empty :: "string option \<Rightarrow> string" where
  \<comment> \<open>\<^verbatim>\<open>v or ''\<close>\<close>
  "or_empty v = (case v of None \<Rightarrow> [] | Some s \<Rightarrow> s)"

section \<open>The currency quoter\<close>

text \<open>
  \<^verbatim>\<open>quote_currency\<close> is \<^verbatim>\<open>re.sub(r'\b([A-Z][A-Z0-9\'\.\_\-]{0,10}[A-Z0-9])\b', quote, string)\<close>.
  The matcher below is the backtracking matcher of \<^verbatim>\<open>re\<close> on this pattern. It
  works on the rest of the string from the current position, with the character before
  that position (\<open>None\<close> at the start of the string), which \<^verbatim>\<open>\b\<close> looks at.
\<close>

definition is_word_at :: "char option \<Rightarrow> bool" where
  \<comment> \<open>a neighbour of a position is a word character; outside the string there is none\<close>
  "is_word_at a = (case a of None \<Rightarrow> False | Some c \<Rightarrow> is_word c)"

definition word_boundary :: "char option \<Rightarrow> char option \<Rightarrow> bool" where
  \<comment> \<open>\<^verbatim>\<open>\b\<close> between two neighbours: exactly one of them is a word character\<close>
  "word_boundary a b = (is_word_at a \<noteq> is_word_at b)"

definition is_middle :: "char \<Rightarrow> bool" where
  \<comment> \<open>the class \<^verbatim>\<open>[A-Z0-9\'\.\_\-]\<close>\<close>
  "is_middle c = (is_upper c \<or> is_digit c \<or> c \<in> set [CHR 0x27, CHR ''.'', CHR ''_'', CHR ''-''])"

definition is_final :: "char \<Rightarrow> bool" where
  \<comment> \<open>the class \<^verbatim>\<open>[A-Z0-9]\<close>\<close>
  "is_final c = (is_upper c \<or> is_digit c)"

definition next_char :: "string \<Rightarrow> char option" where
  "next_char s = (case s of [] \<Rightarrow> None | c # _ \<Rightarrow> Some c)"

definition match_final :: "string \<Rightarrow> nat option" where
  \<comment> \<open>\<^verbatim>\<open>[A-Z0-9]\b\<close> at the head of \<open>s\<close>: the number of characters matched\<close>
  "match_final s =
     (case s of
        [] \<Rightarrow> None
      | c # r \<Rightarrow> if is_final c \<and> word_boundary (Some c) (next_char r) then Some 1 else None)"

fun match_middle :: "nat \<Rightarrow> string \<Rightarrow> nat option" where
  \<comment> \<open>\<^verbatim>\<open>[A-Z0-9\'\.\_\-]{0,k}[A-Z0-9]\b\<close>, greedy: one more repetition is tried first,
      and given up when the rest does not match\<close>
  "match_middle 0 s = match_final s"
| "match_middle (Suc k) [] = match_final []"
| "match_middle (Suc k) (c # r) =
     (if is_middle c
      then (case match_middle k r of
              Some n \<Rightarrow> Some (Suc n)
            | None \<Rightarrow> match_final (c # r))
      else match_final (c # r))"

definition match_at :: "char option \<Rightarrow> string \<Rightarrow> nat option" where
  \<comment> \<open>the whole pattern at the head of \<open>s\<close>: the length of the match\<close>
  "match_at prev s =
     (case s of
        [] \<Rightarrow> None
      | c # r \<Rightarrow> if word_boundary prev (Some c) \<and> is_upper c
               then map_option Suc (match_middle 10 r) else None)"

lemma match_final_bound: "match_final s = Some n \<Longrightarrow> 0 < n \<and> n \<le> length s"
  by (auto simp: match_final_def split: list.splits if_splits)

lemma match_middle_bound: "match_middle k s = Some n \<Longrightarrow> 0 < n \<and> n \<le> length s"
proof (induction k s arbitrary: n rule: match_middle.induct)
  case (3 k c r)
  then show ?case
    by (auto split: if_splits option.splits dest: match_final_bound)
qed (auto dest: match_final_bound)

lemma match_at_bound: "match_at prev s = Some n \<Longrightarrow> 0 < n \<and> n \<le> length s"
  by (auto simp: match_at_def split: list.splits if_splits dest: match_middle_bound)

function re_sub :: "(string \<Rightarrow> string) \<Rightarrow> char option \<Rightarrow> string \<Rightarrow> string" where
  \<comment> \<open>\<^verbatim>\<open>re.sub\<close> with this pattern: matches are looked for from left to right, a match
      is replaced by \<open>repl\<close> of it and the search goes on behind it, any other character
      is copied\<close>
  "re_sub repl prev [] = []"
| "re_sub repl prev (c # r) =
     (case match_at prev (c # r) of
        Some n \<Rightarrow>
          repl (take n (c # r)) @
          re_sub repl (Some (last (take n (c # r)))) (drop n (c # r))
      | None \<Rightarrow> c # re_sub repl (Some c) r)"
  by pat_completeness auto
termination
  by (relation "measure (\<lambda>(repl, prev, s). length s)") (auto dest: match_at_bound)

definition quote :: "string \<Rightarrow> string" where
  \<comment> \<open>\<open>currency\<close> is group 1 of the match, which is the whole match\<close>
  "quote currency =
     (if list_ex (\<lambda>c. is_digit c \<or> c = CHR ''.'') currency
      then [CHR 0x22] @ currency @ [CHR 0x22]
      else currency)"

definition quote_currency :: "string \<Rightarrow> string" where
  "quote_currency string = re_sub quote None string"

section \<open>Data model\<close>

text \<open>
  The directives are built by \<^verbatim>\<open>beancount.core.data\<close>, which this module imports.
  The records below have the fields the module reads, under the names it uses (with a
  prefix where two records share a field name). The sets of tags and links are given
  by the list of their members, which \<^verbatim>\<open>sorted\<close> puts in order. A posting points back to its
  transaction (\<^verbatim>\<open>posting.entry\<close>); the directives are immutable, so the
  back-reference is an address into a fixed store of transactions.
\<close>

datatype error = AttributeError | AssertionError | CollaboratorError

record date =
  year :: nat
  month :: nat
  day :: nat

record 'n amount =
  number :: 'n
  currency :: string

record 'n lot =
  lot_currency :: string
  cost :: "'n amount option"
  lot_date :: "date option"

record 'n position =
  lot :: "'n lot"
  position_number :: 'n

type_synonym ref = nat

record 'n posting =
  entry :: "ref option"
  account :: "string option"
  position :: "'n position option"
  price :: "'n amount option"
  flag :: "string option"

record 'n transaction =
  txn_date :: date
  txn_flag :: "string option"
  payee :: "string option"
  narration :: string
  tags :: "string list option"
  links :: "string list option"
  postings :: "'n posting list"

record 'n balance_directive =
  balance_date :: date
  balance_account :: string
  balance_amount :: "'n amount"

record open_directive =
  open_date :: date
  open_account :: string
  currencies :: "string list option"

record close_directive =
  close_date :: date
  close_account :: string

record note_directive =
  note_date :: date
  note_account :: string
  comment :: string

record document_directive =
  document_date :: date
  document_account :: string
  filename :: string

record pad_directive =
  pad_date :: date
  pad_account :: string
  source_account :: string

record 'n price_directive =
  price_date :: date
  price_currency :: string
  price_amount :: "'n amount"

record event_directive =
  event_date :: date
  event_type :: string
  description :: string

datatype 'n directive =
    Transaction "'n transaction"
  | Balance "'n balance_directive"
  | Open open_directive
  | Close close_directive
  | Note note_directive
  | Document document_directive
  | Pad pad_directive
  | Price "'n price_directive"
  | Event event_directive

text \<open>
  The collaborators of the module that are not part of it are parameters of the model:
  the store that resolves \<^verbatim>\<open>posting.entry\<close>, the formatting of a date by
  \<^verbatim>\<open>{:%Y/%m/%d}\<close>, the truth value of an \<^verbatim>\<open>Amount\<close> (what \<^verbatim>\<open>if amount:\<close>
  tests), \<^verbatim>\<open>Amount.str(amount.MAXDIGITS_PRINTER)\<close>, \<^verbatim>\<open>str(amount)\<close>,
  \<^verbatim>\<open>Position.strs()\<close>, \<^verbatim>\<open>interpolate.fill_residual_posting\<close>,
  \<^verbatim>\<open>interpolate.get_posting_weight\<close>, the negation of a position and
  \<^verbatim>\<open>data.entry_replace\<close> with its keyword arguments \<^verbatim>\<open>postings\<close> and
  \<^verbatim>\<open>narration\<close>. The type \<^typ>\<open>'n\<close> is the type of numbers (\<^verbatim>\<open>Decimal\<close>).

  Modelled from the spec: the class \<^verbatim>\<open>Position\<close> is not in the source; the test
  \<^verbatim>\<open>if posting.position:\<close> of the printers is read as the spec reads it, true when
  the posting has a position.
\<close>

record 'n env =
  store :: "ref \<Rightarrow> 'n transaction option"
  date_str :: "date \<Rightarrow> string"
  amount_bool :: "'n amount \<Rightarrow> bool"
  amount_str :: "'n amount \<Rightarrow> string"
  amount_plain :: "'n amount \<Rightarrow> string"
  position_strs :: "'n position \<Rightarrow> string \<times> string"
  fill_residual_posting :: "'n transaction \<Rightarrow> string \<Rightarrow> error + 'n transaction"
  get_posting_weight :: "'n posting \<Rightarrow> 'n amount"
  position_neg :: "'n position \<Rightarrow> 'n position"
  entry_replace ::
    "'n transaction \<Rightarrow> 'n posting list option \<Rightarrow> string option \<Rightarrow> 'n transaction"

definition ROUNDING_ACCOUNT :: string where
  "ROUNDING_ACCOUNT = ''Equity:Rounding''"

section \<open>The posting classifier\<close>

text \<open>
  \<^verbatim>\<open>if posting.position.lot.cost:\<close> and \<^verbatim>\<open>elif posting.price:\<close> are truth tests:
  \<^verbatim>\<open>None\<close> is false, and an amount is as true as \<^verbatim>\<open>Amount\<close> says. A posting without
  a position makes \<^verbatim>\<open>posting.position.lot\<close> raise \<^verbatim>\<open>AttributeError\<close>.
\<close>

definition amount_true :: "'n env \<Rightarrow> 'n amount option \<Rightarrow> bool" where
  \<comment> \<open>the truth test on a value that is \<^verbatim>\<open>None\<close> or an \<^verbatim>\<open>Amount\<close>\<close>
  "amount_true env v = (case v of None \<Rightarrow> False | Some a \<Rightarrow> amount_bool env a)"

fun postings_loop ::
  "'n env \<Rightarrow> 'n posting list \<Rightarrow> 'n posting list \<times> 'n posting list \<times> 'n posting list \<Rightarrow>
   error + ('n posting list \<times> 'n posting list \<times> 'n posting list)" where
  "postings_loop env [] acc = Inr acc"
| "postings_loop env (posting # rest) (postings_simple, postings_at_price, postings_at_cost) =
     (case position posting of
        None \<Rightarrow> Inl AttributeError
      | Some pos \<Rightarrow>
          if amount_true env (cost (lot pos))
          then postings_loop env rest
                 (postings_simple, postings_at_price, postings_at_cost @ [posting])
          else if amount_true env (price posting)
          then postings_loop env rest
                 (postings_simple, postings_at_price @ [posting], postings_at_cost)
          else postings_loop env rest
                 (postings_simple @ [posting], postings_at_price, postings_at_cost))"

definition postings_by_type ::
  "'n env \<Rightarrow> 'n transaction \<Rightarrow>
   error + ('n posting list \<times> 'n posting list \<times> 'n posting list)" where
  "postings_by_type env ent = postings_loop env (postings ent) ([], [], [])"

section \<open>Splitting currency conversions\<close>

text \<open>
  \<^verbatim>\<open>converted = postings_at_cost and postings_at_price\<close>: Python's \<^verbatim>\<open>and\<close> gives
  back one of its operands, here a list. The values the first component of the result
  can take are therefore kept apart from the booleans.

  The entry is passed by reference. The model returns, next to the pair the function
  returns, the entry as the call leaves it: the function assigns to no field of it and
  appends to lists of its own only, never to \<^verbatim>\<open>entry.postings\<close>.
\<close>

datatype 'n pyvalue = PyBool bool | PyList "'n posting list"

definition py_and :: "'n posting list \<Rightarrow> 'n posting list \<Rightarrow> 'n posting list" where
  "py_and a b = (if a = [] then a else b)"

definition weight_position :: "'n env \<Rightarrow> 'n posting \<Rightarrow> 'n position" where
  \<comment> \<open>\<^verbatim>\<open>simple_position\<close>: the weight of the posting as a position without cost\<close>
  "weight_position env posting_orig =
     (let weight = get_posting_weight env posting_orig
      in \<lparr>lot = \<lparr>lot_currency = currency weight, cost = None, lot_date = None\<rparr>,
          position_number = number weight\<rparr>)"

definition posting_pos :: "'n env \<Rightarrow> 'n posting \<Rightarrow> 'n posting" where
  \<comment> \<open>\<^verbatim>\<open>data.Posting(None, posting_orig.account, simple_position, None, None)\<close>\<close>
  "posting_pos env posting_orig =
     \<lparr>entry = None, account = account posting_orig,
      position = Some (weight_position env posting_orig), price = None, flag = None\<rparr>"

definition posting_neg :: "'n env \<Rightarrow> 'n posting \<Rightarrow> 'n posting" where
  \<comment> \<open>\<^verbatim>\<open>data.Posting(None, posting_orig.account, -simple_position, None, None)\<close>\<close>
  "posting_neg env posting_orig =
     \<lparr>entry = None, account = account posting_orig,
      position = Some (position_neg env (weight_position env posting_orig)),
      price = None, flag = None\<rparr>"

definition currency_entry :: "'n env \<Rightarrow> 'n transaction \<Rightarrow> 'n posting \<Rightarrow> 'n transaction" where
  "currency_entry env ent posting_orig =
     entry_replace env ent (Some [posting_orig, posting_neg env posting_orig])
       (Some (narration ent @ '' (Currency conversion)''))"

fun conversion_loop ::
  "'n env \<Rightarrow> 'n transaction \<Rightarrow> 'n posting list \<Rightarrow>
   'n transaction list \<times> 'n posting list \<Rightarrow> 'n transaction list \<times> 'n posting list" where
  \<comment> \<open>\<^verbatim>\<open>for posting_orig in postings_at_price\<close>, on \<^verbatim>\<open>new_entries\<close> and
      \<^verbatim>\<open>replacement_postings\<close>\<close>
  "conversion_loop env ent [] acc = acc"
| "conversion_loop env ent (posting_orig # rest) (new_entries, replacement_postings) =
     conversion_loop env ent rest
       (new_entries @ [currency_entry env ent posting_orig],
        replacement_postings @ [posting_pos env posting_orig])"

record 'n split_outcome =
  returned :: "'n pyvalue \<times> 'n transaction list"
  entry_after :: "'n transaction"

definition split_currency_conversions ::
  "'n env \<Rightarrow> 'n transaction \<Rightarrow> error + 'n split_outcome" where
  "split_currency_conversions env ent =
     (case postings_by_type env ent of
        Inl err \<Rightarrow> Inl err
      | Inr (postings_simple, postings_at_price, postings_at_cost) \<Rightarrow>
          (let converted = py_and postings_at_cost postings_at_price
           in if converted \<noteq> []
              then
                (let (new_entries, replacement_postings) =
                       conversion_loop env ent postings_at_price ([], []);
                     converted_entry =
                       entry_replace env ent
                         (Some (postings_at_cost @ postings_simple @ replacement_postings)) None
                 in Inr \<lparr>returned = (PyList converted, new_entries @ [converted_entry]),
                         entry_after = ent\<rparr>)
              else Inr \<lparr>returned = (PyList converted, [ent]), entry_after = ent\<rparr>))"

section \<open>The printers\<close>

text \<open>
  What a method does is a list of events, in order: the calls it makes to
  \<^verbatim>\<open>fill_residual_posting\<close> and to \<^verbatim>\<open>postings_by_type\<close>, and its writes to
  \<^verbatim>\<open>oss\<close>. A method that raises has no events to return, since \<^verbatim>\<open>__call__\<close> then
  returns nothing either.
\<close>

datatype 'n event =
    Call_fill_residual_posting "'n transaction" string
  | Call_postings_by_type "'n transaction"
  | Write string

datatype printer = LedgerPrinter | HLedgerPrinter

fun written :: "'n event \<Rightarrow> string" where
  "written (Write s) = s"
| "written _ = []"

definition getvalue :: "'n event list \<Rightarrow> string" where
  \<comment> \<open>\<^verbatim>\<open>oss.getvalue()\<close>: everything written, in order\<close>
  "getvalue evs = concat (map written evs)"

definition posting_flag :: "'n posting \<Rightarrow> string" where
  \<comment> \<open>\<^verbatim>\<open>'{} '.format(posting.flag) if posting.flag else ''\<close>\<close>
  "posting_flag posting = (if truthy (flag posting) then or_empty (flag posting) @ '' '' else [])"

definition ledger_price_str :: "'n env \<Rightarrow> 'n posting \<Rightarrow> error + ('n event list \<times> string)" where
  \<comment> \<open>lines 196 to 209: the price string of a posting, with the calls made for it;
      line 196 tests \<^verbatim>\<open>is not None\<close>, line 205 tests truth\<close>
  "ledger_price_str env posting =
     (case price posting of
        Some p \<Rightarrow> Inr ([], ''@ '' @ amount_str env p)
      | None \<Rightarrow>
          (case (case entry posting of None \<Rightarrow> None | Some r \<Rightarrow> store env r) of
             None \<Rightarrow> Inl AttributeError
           | Some ent \<Rightarrow>
               (case postings_by_type env ent of
                  Inl err \<Rightarrow> Inl err
                | Inr (postings_simple, postings_at_price, postings_at_cost) \<Rightarrow>
                    if postings_at_price \<noteq> [] \<and> postings_at_cost \<noteq> []
                    then (case position posting of
                            None \<Rightarrow> Inl AttributeError
                          | Some pos \<Rightarrow>
                              (case cost (lot pos) of
                                 Some c \<Rightarrow>
                                   if amount_bool env c
                                   then Inr ([Call_postings_by_type ent], ''@ '' @ amount_str env c)
                                   else Inr ([Call_postings_by_type ent], [])
                               | None \<Rightarrow> Inr ([Call_postings_by_type ent], [])))
                    else Inr ([Call_postings_by_type ent], []))))"

definition ledger_posting_str :: "string \<Rightarrow> string \<Rightarrow> string \<Rightarrow> string \<Rightarrow> string" where
  \<comment> \<open>\<^verbatim>\<open>'  {:64} {:>16} {:>16} {:>16}'.format(...)\<close>, each number field quoted\<close>
  "ledger_posting_str flag_posting amount_s cost_s price_s =
     ''  '' @ ljust 64 flag_posting @ '' '' @ rjust 16 (quote_currency amount_s) @ '' '' @
     rjust 16 (quote_currency cost_s) @ '' '' @ rjust 16 (quote_currency price_s)"

definition LedgerPrinter_Posting :: "'n env \<Rightarrow> 'n posting \<Rightarrow> error + 'n event list" where
  "LedgerPrinter_Posting env posting =
     (case account posting of
        None \<Rightarrow> Inl AssertionError
      | Some acct \<Rightarrow>
          (let flag_posting = posting_flag posting @ ljust 62 acct;
               (amount_s, cost_s) =
                 (case position posting of
                    Some pos \<Rightarrow> position_strs env pos
                  | None \<Rightarrow> ([], []))
           in case ledger_price_str env posting of
                Inl err \<Rightarrow> Inl err
              | Inr (calls, price_s) \<Rightarrow>
                  Inr (calls @
                       [Write (rstrip (ledger_posting_str flag_posting amount_s cost_s price_s)),
                        Write [CHR 0x0A]])))"

definition hledger_posting_str :: "string \<Rightarrow> string \<Rightarrow> string \<Rightarrow> string" where
  \<comment> \<open>\<^verbatim>\<open>'  {:64} {:>16} {:>16}'.format(...)\<close>\<close>
  "hledger_posting_str flag_posting amount_s cost_s =
     ''  '' @ ljust 64 flag_posting @ '' '' @ rjust 16 (quote_currency amount_s) @ '' '' @
     rjust 16 (quote_currency cost_s)"

definition HLedgerPrinter_Posting :: "'n env \<Rightarrow> 'n posting \<Rightarrow> error + 'n event list" where
  "HLedgerPrinter_Posting env posting =
     (case account posting of
        None \<Rightarrow> Inl AssertionError
      | Some acct \<Rightarrow>
          (let flag_posting = posting_flag posting @ ljust 62 acct;
               (amount_s, cost_s) =
                 (case position posting of
                    Some pos \<Rightarrow>
                      (let (amount_s, cost_s) = position_strs env pos
                       in if cost_s \<noteq> []
                          then (amount_s, ''@ '' @ rstrip_chars ''}'' (lstrip_chars ''{'' cost_s))
                          else (amount_s, cost_s))
                  | None \<Rightarrow> ([], []));
               price_s =
                 (case price posting of
                    Some p \<Rightarrow> ''@ '' @ amount_str env p
                  | None \<Rightarrow> [])
           in Inr [Write (rstrip (hledger_posting_str flag_posting amount_s cost_s)),
                   Write [CHR 0x0A]]))"

definition Posting_method :: "printer \<Rightarrow> 'n env \<Rightarrow> 'n posting \<Rightarrow> error + 'n event list" where
  \<comment> \<open>\<^verbatim>\<open>cls.Posting\<close>\<close>
  "Posting_method cls =
     (case cls of LedgerPrinter \<Rightarrow> LedgerPrinter_Posting | HLedgerPrinter \<Rightarrow> HLedgerPrinter_Posting)"

fun for_postings ::
  "('n posting \<Rightarrow> error + 'n event list) \<Rightarrow> 'n posting list \<Rightarrow> error + 'n event list" where
  \<comment> \<open>\<^verbatim>\<open>for posting in entry.postings: cls.Posting(cls, posting, oss)\<close>\<close>
  "for_postings f [] = Inr []"
| "for_postings f (posting # rest) =
     (case f posting of
        Inl err \<Rightarrow> Inl err
      | Inr evs \<Rightarrow>
          (case for_postings f rest of
             Inl err \<Rightarrow> Inl err
           | Inr evs' \<Rightarrow> Inr (evs @ evs')))"

definition header_strings :: "'n transaction \<Rightarrow> string list" where
  \<comment> \<open>the list \<^verbatim>\<open>strings\<close> when the header line is written\<close>
  "header_strings ent =
     (case tags ent of
        None \<Rightarrow> []
      | Some ts \<Rightarrow> if ts \<noteq> [] then map (\<lambda>tag. '';; Tag: #'' @ tag) (sort ts) else []) @
     (case links ent of
        None \<Rightarrow> []
      | Some ls \<Rightarrow> if ls \<noteq> [] then map (\<lambda>link. '';; Link: ^'' @ link) (sort ls) else []) @
     (if truthy (payee ent) then [or_empty (payee ent) @ '' |''] else []) @
     (if narration ent \<noteq> [] then [narration ent] else [])"

definition header_line :: "'n env \<Rightarrow> 'n transaction \<Rightarrow> string" where
  \<comment> \<open>\<^verbatim>\<open>'{e.date:%Y/%m/%d} {flag} {}\n'.format(' '.join(strings), flag=entry.flag or '', e=entry)\<close>\<close>
  "header_line env ent =
     date_str env (txn_date ent) @ '' '' @ or_empty (txn_flag ent) @ '' '' @
     join '' '' (header_strings ent) @ [CHR 0x0A]"

definition LedgerPrinter_Transaction ::
  "printer \<Rightarrow> 'n env \<Rightarrow> 'n transaction \<Rightarrow> error + 'n event list" where
  "LedgerPrinter_Transaction cls env ent0 =
     (case fill_residual_posting env ent0 ROUNDING_ACCOUNT of
        Inl err \<Rightarrow> Inl err
      | Inr ent \<Rightarrow>
          (case for_postings (Posting_method cls env) (postings ent) of
             Inl err \<Rightarrow> Inl err
           | Inr evs \<Rightarrow>
               Inr (Call_fill_residual_posting ent0 ROUNDING_ACCOUNT #
                    Write (header_line env ent) # evs)))"

definition LedgerPrinter_Balance :: "'n balance_directive \<Rightarrow> error + 'n event list" where
  "LedgerPrinter_Balance ent = Inr []"

definition LedgerPrinter_Note :: "'n env \<Rightarrow> note_directive \<Rightarrow> error + 'n event list" where
  "LedgerPrinter_Note env ent =
     Inr [Write ('';; Note: '' @ date_str env (note_date ent) @ '' '' @ note_account ent @ '' '' @
                 comment ent @ [CHR 0x0A])]"

definition LedgerPrinter_Document :: "'n env \<Rightarrow> document_directive \<Rightarrow> error + 'n event list" where
  "LedgerPrinter_Document env ent =
     Inr [Write ('';; Document: '' @ date_str env (document_date ent) @ '' '' @
                 document_account ent @ '' '' @ filename ent @ [CHR 0x0A])]"

definition LedgerPrinter_Pad :: "'n env \<Rightarrow> pad_directive \<Rightarrow> error + 'n event list" where
  "LedgerPrinter_Pad env ent =
     Inr [Write ('';; Pad: '' @ date_str env (pad_date ent) @ '' '' @ pad_account ent @ '' '' @
                 source_account ent @ [CHR 0x0A])]"

definition LedgerPrinter_Open :: "'n env \<Rightarrow> open_directive \<Rightarrow> error + 'n event list" where
  "LedgerPrinter_Open env ent =
     Inr (Write (''account '' @ ljust 47 (open_account ent) @ [CHR 0x0A]) #
          (case currencies ent of
             None \<Rightarrow> []
           | Some ccys \<Rightarrow>
               if ccys \<noteq> []
               then [Write (''  assert '' @
                            join '' | '' (map (\<lambda>ccy. ''commodity == '' @ [CHR 0x22] @ ccy @ [CHR 0x22])
                                            ccys) @
                            [CHR 0x0A])]
               else []))"

definition LedgerPrinter_Close :: "'n env \<Rightarrow> close_directive \<Rightarrow> error + 'n event list" where
  "LedgerPrinter_Close env ent =
     Inr [Write ('';; Close: '' @ date_str env (close_date ent) @ '' close '' @ close_account ent @
                 [CHR 0x0A])]"

definition LedgerPrinter_Price :: "'n env \<Rightarrow> 'n price_directive \<Rightarrow> error + 'n event list" where
  "LedgerPrinter_Price env ent =
     (let price_directive =
            ''P '' @ date_str env (price_date ent) @ '' 00:00:00 '' @ ljust 16 (price_currency ent) @
            '' '' @ rjust 16 (amount_plain env (price_amount ent)) @ [CHR 0x0A]
      in Inr [Write (quote_currency price_directive)])"

definition LedgerPrinter_Event :: "'n env \<Rightarrow> event_directive \<Rightarrow> error + 'n event list" where
  "LedgerPrinter_Event env ent =
     Inr [Write ('';; Event: '' @ date_str env (event_date ent) @ '' '' @
                 [CHR 0x22] @ event_type ent @ [CHR 0x22] @ '' '' @
                 [CHR 0x22] @ description ent @ [CHR 0x22] @ [CHR 0x0A])]"

definition HLedgerPrinter_Open :: "'n env \<Rightarrow> open_directive \<Rightarrow> error + 'n event list" where
  "HLedgerPrinter_Open env ent =
     Inr [Write ('';; Open: '' @ date_str env (open_date ent) @ '' close '' @ open_account ent @
                 [CHR 0x0A])]"

fun printer_method :: "printer \<Rightarrow> 'n env \<Rightarrow> 'n directive \<Rightarrow> error + 'n event list" where
  \<comment> \<open>\<^verbatim>\<open>getattr(cls, obj.__class__.__name__)(cls, obj, oss)\<close>; \<^verbatim>\<open>HLedgerPrinter\<close>
      overrides \<^verbatim>\<open>Posting\<close> and \<^verbatim>\<open>Open\<close> and inherits the rest\<close>
  "printer_method cls env (Transaction ent) = LedgerPrinter_Transaction cls env ent"
| "printer_method cls env (Balance ent) = LedgerPrinter_Balance ent"
| "printer_method LedgerPrinter env (Open ent) = LedgerPrinter_Open env ent"
| "printer_method HLedgerPrinter env (Open ent) = HLedgerPrinter_Open env ent"
| "printer_method cls env (Close ent) = LedgerPrinter_Close env ent"
| "printer_method cls env (Note ent) = LedgerPrinter_Note env ent"
| "printer_method cls env (Document ent) = LedgerPrinter_Document env ent"
| "printer_method cls env (Pad ent) = LedgerPrinter_Pad env ent"
| "printer_method cls env (Price ent) = LedgerPrinter_Price env ent"
| "printer_method cls env (Event ent) = LedgerPrinter_Event env ent"

definition printer_call :: "printer \<Rightarrow> 'n env \<Rightarrow> 'n directive \<Rightarrow> error + string" where
  \<comment> \<open>\<^verbatim>\<open>__call__\<close>: a fresh \<^verbatim>\<open>oss\<close>, the method of the directive's kind, \<^verbatim>\<open>oss.getvalue()\<close>\<close>
  "printer_call cls env obj =
     (case printer_method cls env obj of
        Inl err \<Rightarrow> Inl err
      | Inr evs \<Rightarrow> Inr (getvalue evs))"

section \<open>The rules of the specification\<close>

text \<open>
  The token rule in the specification's words: one uppercase letter, then 0 to 10
  characters out of uppercase letters, digits, apostrophe, period, underscore and
  hyphen, then one uppercase letter or digit.
\<close>

definition currency_token :: "string \<Rightarrow> bool" where
  "currency_token t =
     (2 \<le> length t \<and> length t \<le> 12 \<and> is_upper (hd t) \<and>
      list_all is_middle (butlast (tl t)) \<and> is_final (last t))"

definition delimited_token :: "char option \<Rightarrow> string \<Rightarrow> nat \<Rightarrow> bool" where
  \<comment> \<open>the first \<open>n\<close> characters of \<open>s\<close> are a token between two word boundaries\<close>
  "delimited_token prev s n =
     (n \<le> length s \<and> currency_token (take n s) \<and>
      word_boundary prev (next_char s) \<and>
      word_boundary (Some (last (take n s))) (next_char (drop n s)))"

definition longest_token :: "char option \<Rightarrow> string \<Rightarrow> nat \<Rightarrow> bool" where
  "longest_token prev s n =
     (delimited_token prev s n \<and> (\<forall>m. delimited_token prev s m \<longrightarrow> m \<le> n))"

definition tail_ok :: "string \<Rightarrow> nat \<Rightarrow> bool" where
  \<comment> \<open>the first \<open>n\<close> characters of \<open>r\<close> can end a token: \<open>n - 1\<close> middle characters, a final
      one and a word boundary\<close>
  "tail_ok r n =
     (0 < n \<and> n \<le> length r \<and> list_all is_middle (take (n - 1) r) \<and>
      is_final (r ! (n - 1)) \<and>
      word_boundary (Some (r ! (n - 1))) (next_char (drop n r)))"

definition longest_tail :: "nat \<Rightarrow> string \<Rightarrow> nat \<Rightarrow> bool" where
  "longest_tail k s n =
     (tail_ok s n \<and> n \<le> Suc k \<and> (\<forall>m. tail_ok s m \<and> m \<le> Suc k \<longrightarrow> m \<le> n))"

fun longest_upto :: "(nat \<Rightarrow> bool) \<Rightarrow> nat \<Rightarrow> nat option" where
  \<comment> \<open>the greatest \<open>n \<le> k\<close> with \<open>P n\<close>\<close>
  "longest_upto P 0 = (if P 0 then Some 0 else None)"
| "longest_upto P (Suc k) = (if P (Suc k) then Some (Suc k) else longest_upto P k)"

definition spec_token :: "char option \<Rightarrow> string \<Rightarrow> nat option" where
  \<comment> \<open>the longest delimited token at the head of \<open>s\<close>\<close>
  "spec_token prev s = longest_upto (delimited_token prev s) (length s)"

lemma longest_upto_bound: "longest_upto P k = Some n \<Longrightarrow> P n \<and> n \<le> k"
  by (induction k) (auto split: if_splits)

lemma spec_token_bound: "spec_token prev s = Some n \<Longrightarrow> 0 < n \<and> n \<le> length s"
  by (auto simp: spec_token_def delimited_token_def currency_token_def dest!: longest_upto_bound)

function spec_quote_from :: "char option \<Rightarrow> string \<Rightarrow> string" where
  \<comment> \<open>a token is wrapped in double quotes if and only if it has a digit or a period in it;
      all other text stays as it is\<close>
  "spec_quote_from prev [] = []"
| "spec_quote_from prev (c # r) =
     (case spec_token prev (c # r) of
        Some n \<Rightarrow>
          (let token = take n (c # r)
           in (if \<exists>x\<in>set token. is_digit x \<or> x = CHR ''.''
               then [CHR 0x22] @ token @ [CHR 0x22] else token) @
              spec_quote_from (Some (last token)) (drop n (c # r)))
      | None \<Rightarrow> c # spec_quote_from (Some c) r)"
  by pat_completeness auto
termination
  by (relation "measure (\<lambda>(prev, s). length s)") (auto dest: spec_token_bound)

definition quote_currencies_spec :: "string \<Rightarrow> string" where
  "quote_currencies_spec text = spec_quote_from None text"

text \<open>
  The classifier's rule in the specification's words: a posting whose position has a
  lot with a cost is at cost; else a posting with a price is at price; else it is
  simple.
\<close>

definition is_at_cost :: "'n posting \<Rightarrow> bool" where
  "is_at_cost posting =
     (case position posting of None \<Rightarrow> False | Some pos \<Rightarrow> cost (lot pos) \<noteq> None)"

definition is_at_price :: "'n posting \<Rightarrow> bool" where
  "is_at_price posting = (\<not> is_at_cost posting \<and> price posting \<noteq> None)"

definition is_simple :: "'n posting \<Rightarrow> bool" where
  "is_simple posting = (\<not> is_at_cost posting \<and> price posting = None)"

definition amounts_true :: "'n env \<Rightarrow> 'n posting \<Rightarrow> bool" where
  \<comment> \<open>the cost and the price of the posting, where it has them, are true amounts\<close>
  "amounts_true env posting =
     ((case position posting of
         None \<Rightarrow> True
       | Some pos \<Rightarrow> (case cost (lot pos) of None \<Rightarrow> True | Some c \<Rightarrow> amount_bool env c)) \<and>
      (case price posting of None \<Rightarrow> True | Some pr \<Rightarrow> amount_bool env pr))"

text \<open>What the loop of the classifier tests, posting by posting.\<close>

definition tests_at_cost :: "'n env \<Rightarrow> 'n posting \<Rightarrow> bool" where
  "tests_at_cost env posting =
     (case position posting of None \<Rightarrow> False | Some pos \<Rightarrow> amount_true env (cost (lot pos)))"

definition tests_at_price :: "'n env \<Rightarrow> 'n posting \<Rightarrow> bool" where
  "tests_at_price env posting =
     (\<not> tests_at_cost env posting \<and> amount_true env (price posting))"

definition tests_simple :: "'n env \<Rightarrow> 'n posting \<Rightarrow> bool" where
  "tests_simple env posting =
     (\<not> tests_at_cost env posting \<and> \<not> amount_true env (price posting))"

definition py_truth :: "'n pyvalue \<Rightarrow> bool" where
  \<comment> \<open>Python's truth test on the values a \<^verbatim>\<open>converted\<close> can be\<close>
  "py_truth v = (case v of PyBool b \<Rightarrow> b | PyList xs \<Rightarrow> xs \<noteq> [])"

definition truth_of_result ::
  "error + 'n split_outcome \<Rightarrow> error + (bool \<times> 'n transaction list \<times> 'n transaction)" where
  \<comment> \<open>the outcome of \<^verbatim>\<open>split_currency_conversions\<close> with the first component of the
      pair read by its truth: the truth value, the entries, the entry after the call\<close>
  "truth_of_result res =
     (case res of
        Inl err \<Rightarrow> Inl err
      | Inr out \<Rightarrow> Inr (py_truth (fst (returned out)), snd (returned out), entry_after out))"

definition is_fill_call :: "'n event \<Rightarrow> bool" where
  "is_fill_call ev = (case ev of Call_fill_residual_posting _ _ \<Rightarrow> True | _ \<Rightarrow> False)"

section \<open>Example directives\<close>

text \<open>
  The transaction of the docstring of \<^verbatim>\<open>split_currency_conversions\<close>, with numbers
  as their decimal text, and collaborators that format them the way Beancount prints
  them. The theorems below are about every choice of collaborators; these are the
  inputs they are tried on.
\<close>

definition strftime_Ymd :: "date \<Rightarrow> string" where
  "strftime_Ymd d =
     map (\<lambda>k. ''0123456789'' ! (year d div k mod 10)) [1000, 100, 10, 1] @ ''/'' @
     map (\<lambda>k. ''0123456789'' ! (month d div k mod 10)) [10, 1] @ ''/'' @
     map (\<lambda>k. ''0123456789'' ! (day d div k mod 10)) [10, 1]"

definition units_str :: "string amount \<Rightarrow> string" where
  "units_str a = number a @ '' '' @ currency a"

definition zero_text :: "string \<Rightarrow> bool" where
  \<comment> \<open>the decimal text of zero: no digit but 0 in it\<close>
  "zero_text s = list_all (\<lambda>c. c \<in> set ''+-0.'') s"

definition rounding_posting :: "string transaction \<Rightarrow> string \<Rightarrow> string posting" where
  "rounding_posting ent acct =
     \<lparr>entry = (case postings ent of [] \<Rightarrow> None | p # _ \<Rightarrow> entry p),
      account = Some acct,
      position = Some \<lparr>lot = \<lparr>lot_currency = ''USD'', cost = None, lot_date = None\<rparr>,
                       position_number = ''0.0047''\<rparr>,
      price = None, flag = None\<rparr>"

definition posting_goog :: "string posting" where
  "posting_goog =
     \<lparr>entry = Some 0, account = Some ''Assets:CA:Investment:GOOG'',
      position = Some \<lparr>lot = \<lparr>lot_currency = ''GOOG'',
                              cost = Some \<lparr>number = ''520.0'', currency = ''USD''\<rparr>,
                              lot_date = None\<rparr>,
                       position_number = ''5''\<rparr>,
      price = None, flag = None\<rparr>"

definition posting_commission :: "string posting" where
  "posting_commission =
     \<lparr>entry = Some 0, account = Some ''Expenses:Commissions'',
      position = Some \<lparr>lot = \<lparr>lot_currency = ''USD'', cost = None, lot_date = None\<rparr>,
                       position_number = ''9.95''\<rparr>,
      price = None, flag = None\<rparr>"

definition posting_cash :: "string posting" where
  "posting_cash =
     \<lparr>entry = Some 0, account = Some ''Assets:CA:Investment:Cash'',
      position = Some \<lparr>lot = \<lparr>lot_currency = ''CAD'', cost = None, lot_date = None\<rparr>,
                       position_number = ''-2939.46''\<rparr>,
      price = Some \<lparr>number = ''0.8879'', currency = ''USD''\<rparr>, flag = None\<rparr>"

definition posting_gift :: "string posting" where
  \<comment> \<open>shares held at a cost of zero\<close>
  "posting_gift =
     \<lparr>entry = Some 3, account = Some ''Assets:CA:Investment:GOOG'',
      position = Some \<lparr>lot = \<lparr>lot_currency = ''GOOG'',
                              cost = Some \<lparr>number = ''0'', currency = ''USD''\<rparr>,
                              lot_date = None\<rparr>,
                       position_number = ''5''\<rparr>,
      price = Some \<lparr>number = ''531.2'', currency = ''USD''\<rparr>, flag = None\<rparr>"

definition posting_worthless :: "string posting" where
  \<comment> \<open>a conversion at a price of zero\<close>
  "posting_worthless =
     \<lparr>entry = Some 4, account = Some ''Assets:CA:Investment:Cash'',
      position = Some \<lparr>lot = \<lparr>lot_currency = ''CAD'', cost = None, lot_date = None\<rparr>,
                       position_number = ''-2939.46''\<rparr>,
      price = Some \<lparr>number = ''0.00'', currency = ''USD''\<rparr>, flag = None\<rparr>"

definition posting_bare :: "string posting" where
  \<comment> \<open>a posting without a position\<close>
  "posting_bare =
     \<lparr>entry = Some 1, account = Some ''Equity:Opening'',
      position = None, price = None, flag = None\<rparr>"

definition buy_stock :: "string transaction" where
  "buy_stock =
     \<lparr>txn_date = \<lparr>year = 2014, month = 11, day = 2\<rparr>, txn_flag = Some ''*'', payee = None,
      narration = ''Buy some stock with foreign currency funds'',
      tags = None, links = None,
      postings = [posting_goog, posting_commission, posting_cash]\<rparr>"

definition buy_stock_bare :: "string transaction" where
  \<comment> \<open>the same with a fourth posting that has no position\<close>
  "buy_stock_bare =
     buy_stock\<lparr>postings :=
       map (\<lambda>p. p\<lparr>entry := Some 1\<rparr>) [posting_goog, posting_commission, posting_cash] @
       [posting_bare]\<rparr>"

definition buy_stock_usd :: "string transaction" where
  \<comment> \<open>the purchase without the currency conversion\<close>
  "buy_stock_usd =
     buy_stock\<lparr>postings := map (\<lambda>p. p\<lparr>entry := Some 2\<rparr>) [posting_goog, posting_commission]\<rparr>"

definition buy_stock_tagged :: "string transaction" where
  "buy_stock_tagged =
     buy_stock\<lparr>payee := Some ''Broker'', narration := ''Buy stock'',
       tags := Some [''trip'', ''invest''], links := Some [''inv42''],
       postings := [posting_commission]\<rparr>"

definition gift_only :: "string transaction" where
  "gift_only = buy_stock\<lparr>postings := [posting_gift]\<rparr>"

definition buy_stock_worthless :: "string transaction" where
  \<comment> \<open>a posting at cost and a posting with a price of zero\<close>
  "buy_stock_worthless =
     buy_stock\<lparr>postings := [posting_goog\<lparr>entry := Some 4\<rparr>, posting_worthless]\<rparr>"

definition bare_only :: "string transaction" where
  "bare_only = buy_stock\<lparr>postings := [posting_bare]\<rparr>"

definition example_env :: "string env" where
  "example_env =
     \<lparr>store = (\<lambda>r. if r = 0 then Some buy_stock
                   else if r = 1 then Some buy_stock_bare
                   else if r = 2 then Some buy_stock_usd
                   else if r = 3 then Some gift_only
                   else if r = 4 then Some buy_stock_worthless else None),
      date_str = strftime_Ymd,
      amount_bool = (\<lambda>a. \<not> zero_text (number a)),
      amount_str = units_str,
      amount_plain = units_str,
      position_strs =
        (\<lambda>pos. (position_number pos @ '' '' @ lot_currency (lot pos),
                case cost (lot pos) of None \<Rightarrow> [] | Some c \<Rightarrow> ''{'' @ units_str c @ ''}'')),
      fill_residual_posting =
        (\<lambda>ent acct. Inr (ent\<lparr>postings := postings ent @ [rounding_posting ent acct]\<rparr>)),
      get_posting_weight =
        (\<lambda>p. case (position p, price p) of
                (Some pos, Some pr) \<Rightarrow>
                  \<lparr>number = position_number pos @ ''*'' @ number pr, currency = currency pr\<rparr>
              | (Some pos, None) \<Rightarrow>
                  \<lparr>number = position_number pos, currency = lot_currency (lot pos)\<rparr>
              | (None, _) \<Rightarrow> \<lparr>number = [], currency = []\<rparr>),
      position_neg = (\<lambda>pos. pos\<lparr>position_number := ''-'' @ position_number pos\<rparr>),
      entry_replace =
        (\<lambda>ent ps narr.
           ent\<lparr>postings := (case ps of None \<Rightarrow> postings ent | Some x \<Rightarrow> x),
               narration := (case narr of None \<Rightarrow> narration ent | Some x \<Rightarrow> x)\<rparr>)\<rparr>"

definition open_usd_eur :: open_directive where
  "open_usd_eur =
     \<lparr>open_date = \<lparr>year = 2014, month = 1, day = 1\<rparr>, open_account = ''Assets:Cash'',
      currencies = Some [''USD'', ''EUR'']\<rparr>"

definition balance_cash :: "string balance_directive" where
  "balance_cash =
     \<lparr>balance_date = \<lparr>year = 2014, month = 12, day = 31\<rparr>, balance_account = ''Assets:Cash'',
      balance_amount = \<lparr>number = ''100.00'', currency = ''USD''\<rparr>\<rparr>"

section \<open>The matcher finds the longest token\<close>


lemma tail_ok_Nil [simp]: "\<not> tail_ok [] n"
  by (auto simp: tail_ok_def)

lemma tail_ok_pos: "tail_ok r n \<Longrightarrow> 0 < n"
  by (simp add: tail_ok_def)

lemma tail_ok_one: "tail_ok (c # r) (Suc 0) \<longleftrightarrow> is_final c \<and> word_boundary (Some c) (next_char r)"
  by (simp add: tail_ok_def)

lemma tail_ok_Cons: "tail_ok (c # r) (Suc (Suc m)) \<longleftrightarrow> is_middle c \<and> tail_ok r (Suc m)"
  by (auto simp: tail_ok_def)

lemma match_final_iff: "match_final s = Some n \<longleftrightarrow> n = Suc 0 \<and> tail_ok s (Suc 0)"
  by (cases s) (auto simp: match_final_def tail_ok_one)

lemma match_final_None_iff: "match_final s = None \<longleftrightarrow> \<not> tail_ok s (Suc 0)"
  by (cases s) (auto simp: match_final_def tail_ok_one)

lemma longest_tail_0: "longest_tail 0 s n \<longleftrightarrow> n = Suc 0 \<and> tail_ok s (Suc 0)"
proof
  assume a: "longest_tail 0 s n"
  then have "0 < n" "n \<le> Suc 0" by (auto simp: longest_tail_def dest: tail_ok_pos)
  then have "n = Suc 0" by simp
  with a show "n = Suc 0 \<and> tail_ok s (Suc 0)" by (simp add: longest_tail_def)
next
  assume "n = Suc 0 \<and> tail_ok s (Suc 0)"
  then show "longest_tail 0 s n" by (auto simp: longest_tail_def)
qed

lemma longest_tail_step_some:
  assumes "is_middle c" "longest_tail k r n"
  shows "longest_tail (Suc k) (c # r) (Suc n)"
proof -
  from assms(2) obtain j where n: "n = Suc j"
    by (cases n) (auto simp: longest_tail_def dest: tail_ok_pos)
  have "m \<le> Suc n" if "tail_ok (c # r) m" "m \<le> Suc (Suc k)" for m
  proof (cases m)
    case 0
    then show ?thesis by simp
  next
    case (Suc m1)
    show ?thesis
    proof (cases m1)
      case 0
      with Suc show ?thesis by simp
    next
      case (Suc m2)
      with \<open>m = Suc m1\<close> that have "tail_ok r (Suc m2)" "Suc m2 \<le> Suc k"
        by (auto simp: tail_ok_Cons)
      with assms(2) have "Suc m2 \<le> n" by (auto simp: longest_tail_def)
      with Suc \<open>m = Suc m1\<close> show ?thesis by simp
    qed
  qed
  with assms n show ?thesis
    by (auto simp: longest_tail_def tail_ok_Cons)
qed

lemma longest_tail_step_none:
  assumes "\<not> is_middle c \<or> (\<forall>n. \<not> longest_tail k r n)"
  shows "longest_tail (Suc k) (c # r) n \<longleftrightarrow> n = Suc 0 \<and> tail_ok (c # r) (Suc 0)"
proof -
  have no: "\<not> tail_ok (c # r) (Suc (Suc m))" if "Suc (Suc m) \<le> Suc (Suc k)" for m
  proof
    assume t: "tail_ok (c # r) (Suc (Suc m))"
    then have mid: "is_middle c" and tr: "tail_ok r (Suc m)" by (auto simp: tail_ok_Cons)
    from assms mid have none: "\<forall>n. \<not> longest_tail k r n" by simp
    let ?S = "{j. tail_ok r j \<and> j \<le> Suc k}"
    have fin: "finite ?S" by simp
    from tr that have ne: "Suc m \<in> ?S" by simp
    then have "Max ?S \<in> ?S" using Max_in[OF fin] by blast
    moreover have "\<forall>j\<in>?S. j \<le> Max ?S" using Max_ge[OF fin] by blast
    ultimately have "longest_tail k r (Max ?S)" by (auto simp: longest_tail_def)
    with none show False by blast
  qed
  show ?thesis
  proof
    assume a: "longest_tail (Suc k) (c # r) n"
    then have t: "tail_ok (c # r) n" and le: "n \<le> Suc (Suc k)" by (auto simp: longest_tail_def)
    from t have "0 < n" by (rule tail_ok_pos)
    have "n = Suc 0"
    proof (rule ccontr)
      assume "n \<noteq> Suc 0"
      with \<open>0 < n\<close> obtain m where "n = Suc (Suc m)" by (cases n; cases "n - 1") auto
      with no[of m] t le show False by simp
    qed
    with t show "n = Suc 0 \<and> tail_ok (c # r) (Suc 0)" by simp
  next
    assume a: "n = Suc 0 \<and> tail_ok (c # r) (Suc 0)"
    have "m \<le> Suc 0" if "tail_ok (c # r) m" "m \<le> Suc (Suc k)" for m
    proof (rule ccontr)
      assume "\<not> m \<le> Suc 0"
      then obtain j where "m = Suc (Suc j)" by (cases m; cases "m - 1") auto
      with no[of j] that show False by simp
    qed
    with a show "longest_tail (Suc k) (c # r) n" by (auto simp: longest_tail_def)
  qed
qed

lemma longest_tail_unique: "longest_tail k s n \<Longrightarrow> longest_tail k s m \<Longrightarrow> m = n"
  by (auto simp: longest_tail_def intro: le_antisym)

lemma match_middle_iff: "match_middle k s = Some n \<longleftrightarrow> longest_tail k s n"
proof (induction k s arbitrary: n rule: match_middle.induct)
  case (1 s)
  show ?case by (simp add: match_final_iff longest_tail_0)
next
  case (2 k)
  show ?case by (simp add: match_final_def longest_tail_def)
next
  case (3 k c r)
  show ?case
  proof (cases "is_middle c")
    case False
    then show ?thesis
      by (simp add: longest_tail_step_none match_final_iff)
  next
    case True
    show ?thesis
    proof (cases "match_middle k r")
      case None
      with 3 True have "\<forall>n. \<not> longest_tail k r n" by simp
      with None True show ?thesis
        by (simp add: longest_tail_step_none match_final_iff)
    next
      case (Some j)
      with 3[OF True, of j] have "longest_tail k r j" by simp
      then have "longest_tail (Suc k) (c # r) (Suc j)"
        using True by (simp add: longest_tail_step_some)
      with Some True show ?thesis
        by (auto dest: longest_tail_unique)
    qed
  qed
qed


lemma delimited_token_Cons:
  "delimited_token prev (c # r) (Suc m) \<longleftrightarrow>
     word_boundary prev (Some c) \<and> is_upper c \<and> tail_ok r m \<and> m \<le> 11"
proof (cases m)
  case 0
  then show ?thesis
    by (auto simp: delimited_token_def currency_token_def dest: tail_ok_pos)
next
  case (Suc j)
  have "butlast (take (Suc j) r) = take j r" if "Suc j \<le> length r"
    using that by (simp add: butlast_take)
  moreover have "last (take (Suc j) r) = r ! j" if "Suc j \<le> length r"
    using that by (simp add: take_Suc_conv_app_nth)
  moreover have "take (Suc j) r \<noteq> []" if "Suc j \<le> length r"
    using that by auto
  ultimately show ?thesis
    using Suc by (auto simp: delimited_token_def currency_token_def tail_ok_def next_char_def)
qed

lemma delimited_token_Nil [simp]: "\<not> delimited_token prev [] n"
  by (auto simp: delimited_token_def currency_token_def)

lemma delimited_token_0 [simp]: "\<not> delimited_token prev s 0"
  by (auto simp: delimited_token_def currency_token_def)

lemma match_at_iff: "match_at prev s = Some n \<longleftrightarrow> longest_token prev s n"
proof (cases s)
  case Nil
  then show ?thesis by (simp add: match_at_def longest_token_def)
next
  case (Cons c r)
  show ?thesis
  proof (cases "word_boundary prev (Some c) \<and> is_upper c")
    case False
    have "\<not> delimited_token prev (c # r) n" for n
      using False by (cases n) (auto simp: delimited_token_Cons)
    with False Cons show ?thesis
      by (auto simp: match_at_def longest_token_def)
  next
    case True
    have lt: "longest_token prev (c # r) (Suc j) \<longleftrightarrow> longest_tail 10 r j" for j
    proof
      assume a: "longest_token prev (c # r) (Suc j)"
      then have "tail_ok r j" "j \<le> 11" by (auto simp: longest_token_def delimited_token_Cons)
      moreover have "m \<le> j" if "tail_ok r m" "m \<le> Suc 10" for m
      proof -
        from that True have "delimited_token prev (c # r) (Suc m)"
          by (simp add: delimited_token_Cons)
        with a show ?thesis by (auto simp: longest_token_def)
      qed
      ultimately show "longest_tail 10 r j" by (auto simp: longest_tail_def)
    next
      assume a: "longest_tail 10 r j"
      then have d: "delimited_token prev (c # r) (Suc j)"
        using True by (auto simp: longest_tail_def delimited_token_Cons)
      have "m \<le> Suc j" if "delimited_token prev (c # r) m" for m
      proof (cases m)
        case 0
        then show ?thesis by simp
      next
        case (Suc m1)
        with that have "tail_ok r m1" "m1 \<le> Suc 10" by (auto simp: delimited_token_Cons)
        with a have "m1 \<le> j" by (auto simp: longest_tail_def)
        with Suc show ?thesis by simp
      qed
      with d show "longest_token prev (c # r) (Suc j)" by (auto simp: longest_token_def)
    qed
    show ?thesis
    proof (cases n)
      case 0
      with True Cons show ?thesis by (auto simp: match_at_def longest_token_def)
    next
      case (Suc j)
      with True Cons lt[of j] show ?thesis
        by (auto simp: match_at_def match_middle_iff)
    qed
  qed
qed

lemma match_at_None_iff: "match_at prev s = None \<longleftrightarrow> (\<forall>n. \<not> delimited_token prev s n)"
proof
  assume a: "match_at prev s = None"
  show "\<forall>n. \<not> delimited_token prev s n"
  proof (rule ccontr)
    assume "\<not> (\<forall>n. \<not> delimited_token prev s n)"
    then obtain n0 where n0: "delimited_token prev s n0" by blast
    let ?S = "{n. delimited_token prev s n}"
    have "?S \<subseteq> {..length s}" by (auto simp: delimited_token_def)
    then have fin: "finite ?S" by (rule finite_subset) simp
    from n0 have "Max ?S \<in> ?S" using Max_in[OF fin] by blast
    moreover have "\<forall>j\<in>?S. j \<le> Max ?S" using Max_ge[OF fin] by blast
    ultimately have "longest_token prev s (Max ?S)" by (auto simp: longest_token_def)
    then have "match_at prev s = Some (Max ?S)" by (simp add: match_at_iff)
    with a show False by simp
  qed
next
  assume a: "\<forall>n. \<not> delimited_token prev s n"
  show "match_at prev s = None"
  proof (cases "match_at prev s")
    case (Some n)
    then have "longest_token prev s n" by (simp add: match_at_iff)
    with a show ?thesis by (simp add: longest_token_def)
  qed simp
qed

lemma longest_upto_Some_iff:
  "longest_upto P k = Some n \<longleftrightarrow> P n \<and> n \<le> k \<and> (\<forall>m\<le>k. P m \<longrightarrow> m \<le> n)"
proof (induction k)
  case 0
  show ?case by (cases "n = 0") auto
next
  case (Suc k)
  show ?case
  proof (cases "P (Suc k)")
    case True
    then show ?thesis by (auto intro: le_antisym)
  next
    case False
    have "(\<forall>m\<le>Suc k. P m \<longrightarrow> m \<le> n) \<longleftrightarrow> (\<forall>m\<le>k. P m \<longrightarrow> m \<le> n)"
      using False by (auto simp: le_Suc_eq)
    moreover have "P n \<and> n \<le> Suc k \<longleftrightarrow> P n \<and> n \<le> k"
      using False by (auto simp: le_Suc_eq)
    ultimately show ?thesis using False Suc by auto
  qed
qed

lemma spec_token_iff: "spec_token prev s = Some n \<longleftrightarrow> longest_token prev s n"
proof -
  have "delimited_token prev s m \<Longrightarrow> m \<le> length s" for m
    by (simp add: delimited_token_def)
  then show ?thesis
    unfolding spec_token_def longest_upto_Some_iff longest_token_def by blast
qed

lemma match_at_spec: "match_at prev s = spec_token prev s"
proof (cases "match_at prev s")
  case None
  have "spec_token prev s = None"
  proof (cases "spec_token prev s")
    case (Some n)
    then have "match_at prev s = Some n" by (simp add: spec_token_iff match_at_iff)
    with None show ?thesis by simp
  qed simp
  with None show ?thesis by simp
next
  case (Some n)
  then show ?thesis by (simp add: match_at_iff spec_token_iff[symmetric])
qed

lemma re_sub_quote_spec: "re_sub quote prev s = spec_quote_from prev s"
proof (induction quote prev s rule: re_sub.induct)
  case (1 prev)
  show ?case by simp
next
  case (2 prev c r)
  show ?case
  proof (cases "match_at prev (c # r)")
    case None
    with 2 show ?thesis by (simp add: match_at_spec[symmetric])
  next
    case (Some n)
    with 2 show ?thesis
      by (simp add: match_at_spec[symmetric] quote_def list_ex_iff Let_def)
  qed
qed

lemma quote_currency_example_1: "quote_currency ''10 USD'' = ''10 USD''"
  by code_simp

lemma quote_currency_example_2:
  "quote_currency ''5 B2C3'' = ''5 '' @ [CHR 0x22] @ ''B2C3'' @ [CHR 0x22]"
  by code_simp

section \<open>Quoting what is already quoted\<close>

lemma is_upper_word: "is_upper c \<Longrightarrow> is_word c"
  by (simp add: is_word_def)

lemma is_final_word: "is_final c \<Longrightarrow> is_word c"
  by (auto simp: is_word_def is_final_def)

lemma is_upper_middle: "is_upper c \<Longrightarrow> is_middle c"
  by (simp add: is_middle_def)

lemma is_final_middle: "is_final c \<Longrightarrow> is_middle c"
  by (auto simp: is_middle_def is_final_def)

lemma dquote_not_middle: "\<not> is_middle (CHR 0x22)"
  by (simp add: is_middle_def is_upper_def is_digit_def)

lemma dquote_not_upper: "\<not> is_upper (CHR 0x22)"
  by (simp add: is_upper_def)

lemma dquote_not_word: "\<not> is_word (CHR 0x22)"
  by (simp add: is_word_def is_upper_def is_lower_def is_digit_def latin1_alnum_def)

lemma currency_token_middle:
  assumes "currency_token t"
  shows "\<forall>c\<in>set t. is_middle c"
proof -
  from assms have len: "2 \<le> length t" and u: "is_upper (hd t)"
    and m: "list_all is_middle (butlast (tl t))" and f: "is_final (last t)"
    by (auto simp: currency_token_def)
  from len obtain c r where t: "t = c # r" by (cases t) auto
  with len have r: "r \<noteq> []" by auto
  have "set (butlast r @ [last r]) = set (butlast r) \<union> {last r}" by simp
  with r have sr: "set r = set (butlast r) \<union> {last r}" by simp
  show ?thesis
  proof
    fix x assume "x \<in> set t"
    with t sr have "x = c \<or> x \<in> set (butlast r) \<or> x = last r" by auto
    with u m f t r show "is_middle x"
      by (auto simp: list_all_iff is_upper_middle is_final_middle)
  qed
qed

lemma delimited_prefix_stable:
  assumes y: "y \<noteq> []" and nw: "\<not> is_word (last y)"
    and d: "delimited_token p (y @ CHR 0x22 # o2) m"
  shows "delimited_token p (y @ b) m"
proof -
  let ?s = "y @ CHR 0x22 # o2"
  from d have tok: "currency_token (take m ?s)" and mlen: "m \<le> length ?s"
    and b1: "word_boundary p (next_char ?s)"
    and b2: "word_boundary (Some (last (take m ?s))) (next_char (drop m ?s))"
    by (auto simp: delimited_token_def)
  from tok have m2: "2 \<le> m" using mlen by (auto simp: currency_token_def)
  have "m < length y"
  proof (rule ccontr)
    assume "\<not> m < length y"
    then have ge: "length y \<le> m" by simp
    show False
    proof (cases "m = length y")
      case True
      then have "take m ?s = y" by simp
      with tok have "is_final (last y)" by (simp add: currency_token_def)
      with nw show False by (simp add: is_final_word)
    next
      case False
      with ge have "length y < m" by simp
      then obtain k where "m = Suc (length y + k)"
        by (auto dest: less_imp_Suc_add)
      then have "take m ?s = y @ CHR 0x22 # take k o2" by simp
      then have "CHR 0x22 \<in> set (take m ?s)" by simp
      with currency_token_middle[OF tok] have "is_middle (CHR 0x22)" by blast
      then show False by (simp add: dquote_not_middle)
    qed
  qed
  then have lt: "m < length y" .
  from lt have t1: "take m ?s = take m y" by simp
  from lt have t2: "take m (y @ b) = take m y" by simp
  from lt have d1: "drop m ?s = drop m y @ CHR 0x22 # o2" by simp
  from lt have d2: "drop m (y @ b) = drop m y @ b" by simp
  from lt have "drop m y \<noteq> []" by simp
  then obtain e es where dy: "drop m y = e # es" by (cases "drop m y") auto
  have n1: "next_char (drop m ?s) = next_char (drop m (y @ b))"
    unfolding d1 d2 dy by (simp add: next_char_def)
  from y obtain y0 ys where "y = y0 # ys" by (cases y) auto
  then have n2: "next_char ?s = next_char (y @ b)" by (simp add: next_char_def)
  from lt have le: "m \<le> length (y @ b)" by simp
  show ?thesis
    unfolding delimited_token_def
    using tok b1 b2 le unfolding t1 t2 n1 n2 by blast
qed

lemma re_sub_match:
  "match_at p s = Some n \<Longrightarrow>
   re_sub f p s = f (take n s) @ re_sub f (Some (last (take n s))) (drop n s)"
  by (cases s) (auto simp: match_at_def)

lemma re_sub_nomatch:
  "match_at p (c # r) = None \<Longrightarrow> re_sub f p (c # r) = c # re_sub f (Some c) r"
  by simp

lemma match_at_not_upper: "\<not> is_upper c \<Longrightarrow> match_at p (c # r) = None"
  by (simp add: match_at_def)

lemma match_at_facts:
  assumes "match_at p s = Some n"
  shows "\<not> is_word_at p" and "0 < n" and "n \<le> length s" and "currency_token (take n s)"
    and "is_final (last (take n s))" and "\<not> is_word_at (next_char (drop n s))"
    and "is_upper (hd s)" and "delimited_token p s n"
    and "\<And>m. delimited_token p s m \<Longrightarrow> m \<le> n"
proof -
  from assms have lt: "longest_token p s n" by (simp add: match_at_iff)
  then show d: "delimited_token p s n" by (simp add: longest_token_def)
  from lt show "\<And>m. delimited_token p s m \<Longrightarrow> m \<le> n" by (simp add: longest_token_def)
  from assms show "0 < n" "n \<le> length s" by (auto dest: match_at_bound)
  from d show tok: "currency_token (take n s)" by (simp add: delimited_token_def)
  then show fin: "is_final (last (take n s))" by (simp add: currency_token_def)
  from assms obtain c r where s: "s = c # r" and u: "is_upper c" and b: "word_boundary p (Some c)"
    by (cases s) (auto simp: match_at_def split: if_splits)
  from s u show "is_upper (hd s)" by simp
  from b u show "\<not> is_word_at p"
    by (simp add: word_boundary_def is_word_at_def is_upper_word)
  from d have "word_boundary (Some (last (take n s))) (next_char (drop n s))"
    by (simp add: delimited_token_def)
  with fin show "\<not> is_word_at (next_char (drop n s))"
    by (simp add: word_boundary_def is_word_at_def is_final_word)
qed

lemma first_quote:
  "re_sub quote p r = r \<or>
   (\<exists>a b o2. r = a @ b \<and> re_sub quote p r = a @ CHR 0x22 # o2 \<and>
      \<not> is_word_at (if a = [] then p else Some (last a)))"
proof (induction quote p r rule: re_sub.induct)
  case (1 prev)
  show ?case by simp
next
  case (2 prev c r)
  let ?s = "c # r"
  show ?case
  proof (cases "match_at prev ?s")
    case None
    from 2(1)[OF None] show ?thesis
    proof
      assume "re_sub quote (Some c) r = r"
      with None show ?thesis by simp
    next
      assume "\<exists>a b o2. r = a @ b \<and> re_sub quote (Some c) r = a @ CHR 0x22 # o2 \<and>
        \<not> is_word_at (if a = [] then Some c else Some (last a))"
      then obtain a b o2 where r: "r = a @ b" and o: "re_sub quote (Some c) r = a @ CHR 0x22 # o2"
        and nw: "\<not> is_word_at (if a = [] then Some c else Some (last a))" by blast
      from nw have "\<not> is_word_at (if c # a = [] then prev else Some (last (c # a)))"
        by (cases "a = []") auto
      moreover from r have "?s = (c # a) @ b" by simp
      moreover from o None have "re_sub quote prev ?s = (c # a) @ CHR 0x22 # o2" by simp
      ultimately show ?thesis by blast
    qed
  next
    case (Some n)
    let ?t = "take n ?s" and ?rest = "drop n ?s"
    note f = match_at_facts[OF Some]
    have out: "re_sub quote prev ?s = quote ?t @ re_sub quote (Some (last ?t)) ?rest"
      using Some by simp
    from f(2) have tne: "?t \<noteq> []" by auto
    show ?thesis
    proof (cases "quote ?t = ?t")
      case False
      then have "quote ?t = CHR 0x22 # ?t @ [CHR 0x22]" by (simp add: quote_def split: if_splits)
      with out have "re_sub quote prev ?s =
          [] @ CHR 0x22 # (?t @ CHR 0x22 # re_sub quote (Some (last ?t)) ?rest)" by simp
      moreover have "?s = [] @ ?s" by simp
      moreover from f(1) have "\<not> is_word_at (if [] = ([]::string) then prev else Some (last []))"
        by simp
      ultimately show ?thesis by blast
    next
      case True
      from 2(2)[OF Some] show ?thesis
      proof
        assume "re_sub quote (Some (last ?t)) ?rest = ?rest"
        with out True have "re_sub quote prev ?s = ?t @ ?rest" by simp
        then show ?thesis by simp
      next
        assume "\<exists>a b o2. ?rest = a @ b \<and> re_sub quote (Some (last ?t)) ?rest = a @ CHR 0x22 # o2 \<and>
          \<not> is_word_at (if a = [] then Some (last ?t) else Some (last a))"
        then obtain a b o2 where r: "?rest = a @ b"
          and o: "re_sub quote (Some (last ?t)) ?rest = a @ CHR 0x22 # o2"
          and nw: "\<not> is_word_at (if a = [] then Some (last ?t) else Some (last a))" by blast
        from nw tne have "\<not> is_word_at (if ?t @ a = [] then prev else Some (last (?t @ a)))"
          by (cases "a = []") auto
        moreover have "?s = (?t @ a) @ b" using r by (metis append_assoc append_take_drop_id)
        moreover from o out True have "re_sub quote prev ?s = (?t @ a) @ CHR 0x22 # o2" by simp
        ultimately show ?thesis by blast
      qed
    qed
  qed
qed

lemma longest_token_requoted:
  assumes "match_at p s = Some n"
  shows "match_at (Some (CHR 0x22)) (take n s @ CHR 0x22 # o2) = Some n"
proof -
  note f = match_at_facts[OF assms]
  let ?t = "take n s" and ?s' = "take n s @ CHR 0x22 # o2"
  from f(2,3) have len: "length ?t = n" and tne: "?t \<noteq> []" by auto
  from tne f(7) have hd: "is_upper (hd ?t)" by (cases s) (use f(2) in \<open>auto simp: take_Cons'\<close>)
  from tne obtain t0 ts where t: "?t = t0 # ts" by (cases ?t) auto
  have tk: "take n ?s' = ?t" using len by simp
  have dr: "drop n ?s' = CHR 0x22 # o2" using len by simp
  have nc: "next_char ?s' = Some (hd ?t)" unfolding t by (simp add: next_char_def)
  have d: "delimited_token (Some (CHR 0x22)) ?s' n"
    unfolding delimited_token_def tk dr nc
    using f(4,5) hd len
    by (simp add: word_boundary_def is_word_at_def next_char_def dquote_not_word
        is_upper_word is_final_word)
  have "m \<le> n" if dm: "delimited_token (Some (CHR 0x22)) ?s' m" for m
  proof (rule ccontr)
    assume "\<not> m \<le> n"
    then obtain k where "m = Suc (n + k)" by (auto simp: not_le dest: less_imp_Suc_add)
    then have "take m ?s' = ?t @ CHR 0x22 # take k o2" using len by simp
    then have "CHR 0x22 \<in> set (take m ?s')" by simp
    moreover from dm have "currency_token (take m ?s')" by (simp add: delimited_token_def)
    ultimately have "is_middle (CHR 0x22)" using currency_token_middle by blast
    then show False by (simp add: dquote_not_middle)
  qed
  with d show ?thesis by (simp add: match_at_iff longest_token_def)
qed

lemma match_at_after_quoting:
  assumes m: "match_at p s = Some n" and fc:
    "out = drop n s \<or>
     (\<exists>a b o2. drop n s = a @ b \<and> out = a @ CHR 0x22 # o2 \<and>
        \<not> is_word_at (if a = [] then Some (last (take n s)) else Some (last a)))"
  shows "match_at p (take n s @ out) = Some n"
  using fc
proof
  assume "out = drop n s"
  with m show ?thesis by simp
next
  assume "\<exists>a b o2. drop n s = a @ b \<and> out = a @ CHR 0x22 # o2 \<and>
        \<not> is_word_at (if a = [] then Some (last (take n s)) else Some (last a))"
  then obtain a b o2 where r: "drop n s = a @ b" and o: "out = a @ CHR 0x22 # o2"
    and nw: "\<not> is_word_at (if a = [] then Some (last (take n s)) else Some (last a))" by blast
  note f = match_at_facts[OF m]
  let ?t = "take n s"
  from f(2,3) have len: "length ?t = n" and tne: "?t \<noteq> []" by auto
  from f(5) have "is_word_at (Some (last ?t))" by (simp add: is_word_at_def is_final_word)
  with nw have ane: "a \<noteq> []" and nwa: "\<not> is_word (last a)"
    by (auto simp: is_word_at_def split: if_splits)
  let ?y = "?t @ a"
  have s: "s = ?y @ b" using r by (metis append_assoc append_take_drop_id)
  have yne: "?y \<noteq> []" using tne by simp
  have ly: "\<not> is_word (last ?y)" using ane nwa by simp
  let ?s' = "?y @ CHR 0x22 # o2"
  from ane obtain a0 as where a: "a = a0 # as" by (cases a) auto
  from tne obtain t0 ts where t: "?t = t0 # ts" by (cases ?t) auto
  have d: "delimited_token p ?s' n"
  proof -
    have "take n ?s' = ?t" using len by simp
    moreover have "drop n ?s' = a @ CHR 0x22 # o2" using len by simp
    then have "next_char (drop n ?s') = next_char (drop n s)"
      unfolding r a by (simp add: next_char_def)
    moreover have "next_char ?s' = next_char s"
      by (subst (2) s) (simp add: t next_char_def)
    moreover have "n \<le> length ?s'" using len by simp
    ultimately show ?thesis using f(8) by (simp add: delimited_token_def)
  qed
  have "k \<le> n" if "delimited_token p ?s' k" for k
  proof -
    from delimited_prefix_stable[OF yne ly that, of b] have "delimited_token p s k"
      using s by simp
    then show ?thesis by (rule f(9))
  qed
  with d have "match_at p ?s' = Some n" by (simp add: match_at_iff longest_token_def)
  with o show ?thesis by simp
qed

lemma nomatch_after_quoting:
  assumes m: "match_at p (c # r) = None" and fc:
    "out = r \<or>
     (\<exists>a b o2. r = a @ b \<and> out = a @ CHR 0x22 # o2 \<and>
        \<not> is_word_at (if a = [] then Some c else Some (last a)))"
  shows "match_at p (c # out) = None"
  using fc
proof
  assume "out = r"
  with m show ?thesis by simp
next
  assume "\<exists>a b o2. r = a @ b \<and> out = a @ CHR 0x22 # o2 \<and>
        \<not> is_word_at (if a = [] then Some c else Some (last a))"
  then obtain a b o2 where r: "r = a @ b" and o: "out = a @ CHR 0x22 # o2"
    and nw: "\<not> is_word_at (if a = [] then Some c else Some (last a))" by blast
  let ?y = "c # a"
  from nw have ly: "\<not> is_word (last ?y)" by (cases "a = []") (auto simp: is_word_at_def)
  have "\<not> delimited_token p (?y @ CHR 0x22 # o2) k" for k
  proof
    assume "delimited_token p (?y @ CHR 0x22 # o2) k"
    from delimited_prefix_stable[OF _ ly this, of b] have "delimited_token p (c # r) k"
      using r by simp
    with m show False by (simp add: match_at_None_iff)
  qed
  then have "match_at p (?y @ CHR 0x22 # o2) = None" by (simp add: match_at_None_iff)
  with o show ?thesis by simp
qed

lemma re_sub_prev_irrelevant:
  assumes "\<not> is_word_at (next_char s)"
  shows "re_sub f p s = re_sub f q s"
proof (cases s)
  case Nil
  then show ?thesis by simp
next
  case (Cons c r)
  with assms have "\<not> is_upper c" by (auto simp: next_char_def is_word_at_def is_upper_word)
  then show ?thesis using Cons by (simp add: match_at_not_upper)
qed

lemma re_sub_keeps_first:
  assumes "\<not> is_word_at (next_char s)"
  shows "\<not> is_word_at (next_char (re_sub f p s))"
proof (cases s)
  case Nil
  then show ?thesis using assms by simp
next
  case (Cons c r)
  with assms have "\<not> is_upper c" by (auto simp: next_char_def is_word_at_def is_upper_word)
  then show ?thesis using Cons assms by (simp add: match_at_not_upper next_char_def)
qed

lemma quote_quote:
  assumes "quote t \<noteq> t"
  shows "quote t = CHR 0x22 # t @ [CHR 0x22]"
    and "quote (CHR 0x22 # t @ [CHR 0x22]) = CHR 0x22 # CHR 0x22 # t @ [CHR 0x22, CHR 0x22]"
  using assms by (auto simp: quote_def split: if_splits)

lemma re_sub_twice: "re_sub quote p (re_sub quote p s) = re_sub (quote \<circ> quote) p s"
proof (induction quote p s rule: re_sub.induct)
  case (1 prev)
  show ?case by simp
next
  case (2 prev c r)
  let ?s = "c # r"
  show ?case
  proof (cases "match_at prev ?s")
    case None
    let ?out = "re_sub quote (Some c) r"
    have "match_at prev (c # ?out) = None"
      using None first_quote[of "Some c" r] by (rule nomatch_after_quoting)
    then have "re_sub quote prev (c # ?out) = c # re_sub quote (Some c) ?out" by simp
    with 2(1)[OF None] None show ?thesis by simp
  next
    case (Some n)
    let ?t = "take n ?s" and ?rest = "drop n ?s"
    let ?out = "re_sub quote (Some (last ?t)) ?rest"
    note f = match_at_facts[OF Some]
    from f(2,3) have len: "length ?t = n" and tne: "?t \<noteq> []" by auto
    have out: "re_sub quote prev ?s = quote ?t @ ?out" using Some by simp
    have rhs: "re_sub (quote \<circ> quote) prev ?s =
        quote (quote ?t) @ re_sub (quote \<circ> quote) (Some (last ?t)) ?rest"
      using Some by simp
    note IH = 2(2)[OF Some]
    show ?thesis
    proof (cases "quote ?t = ?t")
      case True
      have m: "match_at prev (?t @ ?out) = Some n"
        using Some first_quote[of "Some (last ?t)" ?rest] by (rule match_at_after_quoting)
      have "re_sub quote prev (?t @ ?out) = quote ?t @ re_sub quote (Some (last ?t)) ?out"
        using re_sub_match[OF m, of quote] len by simp
      with IH out rhs True show ?thesis by simp
    next
      case False
      note q = quote_quote[OF False]
      let ?dq = "CHR 0x22"
      have o1: "re_sub quote prev ?s = ?dq # (?t @ ?dq # ?out)" using out q by simp
      have s1: "re_sub quote prev (?dq # (?t @ ?dq # ?out)) =
          ?dq # re_sub quote (Some ?dq) (?t @ ?dq # ?out)"
        by (simp add: match_at_not_upper dquote_not_upper)
      have m: "match_at (Some ?dq) (?t @ ?dq # ?out) = Some n"
        using Some by (rule longest_token_requoted)
      have s2: "re_sub quote (Some ?dq) (?t @ ?dq # ?out) =
          quote ?t @ re_sub quote (Some (last ?t)) (?dq # ?out)"
        using re_sub_match[OF m, of quote] len by simp
      have s3: "re_sub quote (Some (last ?t)) (?dq # ?out) = ?dq # re_sub quote (Some ?dq) ?out"
        by (simp add: match_at_not_upper dquote_not_upper)
      have "\<not> is_word_at (next_char ?out)"
        using f(6) by (rule re_sub_keeps_first)
      then have s4: "re_sub quote (Some ?dq) ?out = re_sub quote (Some (last ?t)) ?out"
        by (rule re_sub_prev_irrelevant)
      have "re_sub quote prev (re_sub quote prev ?s) =
          ?dq # quote ?t @ ?dq # re_sub (quote \<circ> quote) (Some (last ?t)) ?rest"
        unfolding o1 s1 s2 s3 s4 IH by simp
      also have "\<dots> = re_sub (quote \<circ> quote) prev ?s"
        unfolding rhs using q by simp
      finally show ?thesis .
    qed
  qed
qed

lemma re_sub_twice_fixed:
  "re_sub (quote \<circ> quote) p s = re_sub quote p s \<Longrightarrow> re_sub quote p s = s"
proof (induction quote p s rule: re_sub.induct)
  case (1 prev)
  show ?case by simp
next
  case (2 prev c r)
  let ?s = "c # r"
  show ?case
  proof (cases "match_at prev ?s")
    case None
    with 2(3) have "re_sub (quote \<circ> quote) (Some c) r = re_sub quote (Some c) r" by simp
    from 2(1)[OF None this] None show ?thesis by simp
  next
    case (Some n)
    let ?t = "take n ?s" and ?rest = "drop n ?s"
    note f = match_at_facts[OF Some]
    from f(2,3) have tne: "?t \<noteq> []" by auto
    then obtain t0 ts where t: "?t = t0 # ts" by (cases ?t) auto
    from f(7) t have u: "is_upper t0" using f(2) by (auto simp: take_Cons')
    from 2(3) Some have eq: "quote (quote ?t) @ re_sub (quote \<circ> quote) (Some (last ?t)) ?rest =
        quote ?t @ re_sub quote (Some (last ?t)) ?rest" by simp
    show ?thesis
    proof (cases "quote ?t = ?t")
      case True
      with eq have "re_sub (quote \<circ> quote) (Some (last ?t)) ?rest =
          re_sub quote (Some (last ?t)) ?rest" by simp
      from 2(2)[OF Some this] have "re_sub quote (Some (last ?t)) ?rest = ?rest" .
      with Some True have "re_sub quote prev ?s = ?t @ ?rest" by simp
      then show ?thesis by simp
    next
      case False
      note q = quote_quote[OF False]
      from eq have "CHR 0x22 # CHR 0x22 # ?t @ [CHR 0x22, CHR 0x22] @
          re_sub (quote \<circ> quote) (Some (last ?t)) ?rest =
        CHR 0x22 # ?t @ [CHR 0x22] @ re_sub quote (Some (last ?t)) ?rest"
        unfolding q by simp
      then have "CHR 0x22 = t0" unfolding t by simp
      with u have "is_upper (CHR 0x22)" by simp
      then show ?thesis using dquote_not_upper by blast
    qed
  qed
qed

lemma re_sub_no_digit:
  "\<forall>c\<in>set s. \<not> is_digit c \<and> c \<noteq> CHR ''.'' \<Longrightarrow> re_sub quote p s = s"
proof (induction quote p s rule: re_sub.induct)
  case (1 prev)
  show ?case by simp
next
  case (2 prev c r)
  let ?s = "c # r"
  show ?case
  proof (cases "match_at prev ?s")
    case None
    with 2(1)[OF None] 2(3) show ?thesis by simp
  next
    case (Some n)
    let ?t = "take n ?s" and ?rest = "drop n ?s"
    have "set ?t \<subseteq> set ?s" by (rule set_take_subset)
    with 2(3) have "quote ?t = ?t" by (auto simp: quote_def list_ex_iff)
    moreover have "set ?rest \<subseteq> set ?s" by (rule set_drop_subset)
    with 2(3) have "\<forall>c\<in>set ?rest. \<not> is_digit c \<and> c \<noteq> CHR ''.''" by blast
    from 2(2)[OF Some this] have "re_sub quote (Some (last ?t)) ?rest = ?rest" .
    ultimately have "re_sub quote prev ?s = ?t @ ?rest" using Some by simp
    then show ?thesis by simp
  qed
qed

section \<open>Claims about the currency quoter\<close>

text \<open>
  C5. For every string, \<^verbatim>\<open>quote_currency\<close> does what the token rule says: from left
  to right, the longest token between two word boundaries that starts at the current
  position (one uppercase letter, then 0 to 10 characters out of uppercase letters,
  digits, apostrophe, period, underscore and hyphen, then one uppercase letter or digit)
  is wrapped in double quotes if and only if it has a digit or a period in it, and all
  other text is copied unchanged. In particular \<^verbatim>\<open>quote_currency("10 USD")\<close> is
  \<^verbatim>\<open>10 USD\<close> and \<^verbatim>\<open>quote_currency("5 B2C3")\<close> is \<^verbatim>\<open>5 "B2C3"\<close>.
\<close>

theorem quote_currency_refines_spec:
  "quote_currency s = quote_currencies_spec s \<and>
   quote_currency ''10 USD'' = ''10 USD'' \<and>
   quote_currency ''5 B2C3'' = ''5 '' @ [CHR 0x22] @ ''B2C3'' @ [CHR 0x22]"
  using re_sub_quote_spec[of None s] quote_currency_example_1 quote_currency_example_2
  by (simp add: quote_currency_def quote_currencies_spec_def)

theorem quote_currency_refines_spec_witness:
  "quote_currencies_spec ''VEUR.L 5 B2C3 USD'' =
     [CHR 0x22] @ ''VEUR.L'' @ [CHR 0x22] @ '' 5 '' @ [CHR 0x22] @ ''B2C3'' @ [CHR 0x22] @ '' USD''"
proof -
  have "quote_currency ''VEUR.L 5 B2C3 USD'' =
     [CHR 0x22] @ ''VEUR.L'' @ [CHR 0x22] @ '' 5 '' @ [CHR 0x22] @ ''B2C3'' @ [CHR 0x22] @ '' USD''"
    by code_simp
  with quote_currency_refines_spec[of "''VEUR.L 5 B2C3 USD''"] show ?thesis by simp
qed

text \<open>
  C6 says that \<^verbatim>\<open>quote_currency\<close> is idempotent. It is not: the quotes it puts around
  a token are not word characters, so the token is found again and quoted again.
\<close>

theorem quote_currency_not_idempotent:
  "quote_currency (quote_currency ''5 B2C3'') \<noteq> quote_currency ''5 B2C3''"
  by code_simp

text \<open>
  C6, amended. Applying \<^verbatim>\<open>quote_currency\<close> twice gives the same as applying it once
  exactly for the strings it leaves unchanged, which include every string without a
  digit and without a period.
\<close>

theorem quote_currency_idempotent_iff:
  "(quote_currency (quote_currency s) = quote_currency s \<longleftrightarrow> quote_currency s = s) \<and>
   ((\<forall>c\<in>set s. \<not> is_digit c \<and> c \<noteq> CHR ''.'') \<longrightarrow> quote_currency s = s)"
proof -
  have "quote_currency (quote_currency s) = quote_currency s \<Longrightarrow> quote_currency s = s"
    unfolding quote_currency_def re_sub_twice by (rule re_sub_twice_fixed)
  moreover have "quote_currency s = s \<Longrightarrow> quote_currency (quote_currency s) = quote_currency s"
    by simp
  ultimately show ?thesis
    using re_sub_no_digit[of s None] by (auto simp: quote_currency_def)
qed

theorem quote_currency_idempotent_iff_witness:
  "list_all (\<lambda>c. \<not> is_digit c \<and> c \<noteq> CHR ''.'') ''USD @ AB-CD'' \<and>
   quote_currency ''USD @ AB-CD'' = ''USD @ AB-CD'' \<and>
   quote_currency (quote_currency ''USD @ AB-CD'') = quote_currency ''USD @ AB-CD''"
proof -
  have h: "\<forall>c\<in>set ''USD @ AB-CD''. \<not> is_digit c \<and> c \<noteq> CHR ''.''"
    by (simp add: is_digit_def)
  from quote_currency_idempotent_iff[of "''USD @ AB-CD''"] h show ?thesis
    by (simp add: list_all_iff)
qed

section \<open>Claims about the classifier\<close>

lemma postings_loop_tests:
  "\<forall>p\<in>set ps. position p \<noteq> None \<Longrightarrow>
   postings_loop env ps (s, ap, ac) =
     Inr (s @ filter (tests_simple env) ps, ap @ filter (tests_at_price env) ps,
          ac @ filter (tests_at_cost env) ps)"
proof (induction ps arbitrary: s ap ac)
  case Nil
  show ?case by simp
next
  case (Cons p ps)
  from Cons.prems obtain pos where pos: "position p = Some pos" by auto
  from Cons.prems have rest: "\<forall>q\<in>set ps. position q \<noteq> None" by simp
  show ?case
    using pos Cons.IH[OF rest]
    by (simp add: tests_at_cost_def tests_at_price_def tests_simple_def)
qed

lemma postings_loop_error:
  "\<exists>p\<in>set ps. position p = None \<Longrightarrow> postings_loop env ps acc = Inl AttributeError"
proof (induction ps arbitrary: acc)
  case Nil
  then show ?case by simp
next
  case (Cons p ps)
  obtain s ap ac where acc: "acc = (s, ap, ac)" by (cases acc) auto
  show ?case
  proof (cases "position p")
    case None
    then show ?thesis by (simp add: acc)
  next
    case (Some pos)
    with Cons.prems have "\<exists>q\<in>set ps. position q = None" by auto
    then show ?thesis using Some Cons.IH by (simp add: acc)
  qed
qed

lemma postings_by_type_tests:
  "\<forall>p\<in>set (postings ent). position p \<noteq> None \<Longrightarrow>
   postings_by_type env ent =
     Inr (filter (tests_simple env) (postings ent), filter (tests_at_price env) (postings ent),
          filter (tests_at_cost env) (postings ent))"
  by (simp add: postings_by_type_def postings_loop_tests)

lemma tests_as_specified:
  assumes "position p \<noteq> None" "amounts_true env p"
  shows "tests_at_cost env p = is_at_cost p" "tests_at_price env p = is_at_price p"
    "tests_simple env p = is_simple p"
proof -
  from assms show c: "tests_at_cost env p = is_at_cost p"
    by (auto simp: tests_at_cost_def is_at_cost_def amounts_true_def amount_true_def
        split: option.splits)
  from assms have "amount_true env (price p) = (price p \<noteq> None)"
    by (auto simp: amounts_true_def amount_true_def split: option.splits)
  with c show "tests_at_price env p = is_at_price p" "tests_simple env p = is_simple p"
    by (auto simp: tests_at_price_def is_at_price_def tests_simple_def is_simple_def)
qed

lemma postings_by_type_filter:
  assumes "\<forall>p\<in>set (postings ent). position p \<noteq> None \<and> amounts_true env p"
  shows "postings_by_type env ent =
     Inr (filter is_simple (postings ent), filter is_at_price (postings ent),
          filter is_at_cost (postings ent))"
proof -
  from assms have "\<forall>p\<in>set (postings ent). position p \<noteq> None" by blast
  from postings_by_type_tests[OF this] have
    "postings_by_type env ent =
       Inr (filter (tests_simple env) (postings ent), filter (tests_at_price env) (postings ent),
            filter (tests_at_cost env) (postings ent))" .
  moreover have "filter (tests_simple env) (postings ent) = filter is_simple (postings ent)"
    using assms by (intro filter_cong) (auto simp: tests_as_specified)
  moreover have "filter (tests_at_price env) (postings ent) = filter is_at_price (postings ent)"
    using assms by (intro filter_cong) (auto simp: tests_as_specified)
  moreover have "filter (tests_at_cost env) (postings ent) = filter is_at_cost (postings ent)"
    using assms by (intro filter_cong) (auto simp: tests_as_specified)
  ultimately show ?thesis by simp
qed

lemma classes_partition:
  "mset (filter is_simple ps) + mset (filter is_at_price ps) + mset (filter is_at_cost ps) =
   mset ps"
  by (induction ps) (auto simp: is_simple_def is_at_price_def)

lemma buy_stock_classes:
  "filter is_simple (postings buy_stock) = [posting_commission]"
  "filter is_at_price (postings buy_stock) = [posting_cash]"
  "filter is_at_cost (postings buy_stock) = [posting_goog]"
  by (simp_all add: buy_stock_def posting_goog_def posting_commission_def posting_cash_def
      is_simple_def is_at_price_def is_at_cost_def)

lemma buy_stock_positions:
  "\<forall>p\<in>set (postings buy_stock). position p \<noteq> None \<and> amounts_true example_env p"
  by (simp add: buy_stock_def posting_goog_def posting_commission_def posting_cash_def
      amounts_true_def example_env_def zero_text_def)

text \<open>
  C2 says that the classifier returns its three sequences for every transaction, with
  every posting that has a cost at cost. A posting may have no position (the printers
  test for it), and for a transaction with such a posting \<^verbatim>\<open>posting.position.lot\<close>
  raises \<^verbatim>\<open>AttributeError\<close>. And the classifier tests the truth of the cost and of the
  price, and a zero amount is false: a posting held at a cost of zero with a price of
  its own is put with the postings at price.
\<close>

theorem postings_by_type_not_as_stated:
  "postings_by_type example_env bare_only = Inl AttributeError \<and>
   position posting_gift \<noteq> None \<and>
   cost (lot (the (position posting_gift))) = Some \<lparr>number = ''0'', currency = ''USD''\<rparr> \<and>
   postings_by_type example_env gift_only = Inr ([], [posting_gift], [])"
  by (simp add: postings_by_type_def bare_only_def posting_bare_def gift_only_def
      posting_gift_def amount_true_def example_env_def zero_text_def)

text \<open>
  C2, amended. For every transaction whose postings all have a position, and whose
  costs and prices are all true amounts (not zero), the classifier returns three
  sequences (simple, at price, at cost) that partition the postings and keep their
  order: a posting whose lot has a cost is at cost, otherwise a posting with a price is
  at price, otherwise it is simple. A posting with both a cost and a price is at cost
  and not at price.
\<close>

theorem postings_by_type_partition:
  assumes "\<forall>p\<in>set (postings ent). position p \<noteq> None \<and> amounts_true env p"
  shows "postings_by_type env ent =
           Inr (filter is_simple (postings ent), filter is_at_price (postings ent),
                filter is_at_cost (postings ent)) \<and>
         mset (filter is_simple (postings ent)) + mset (filter is_at_price (postings ent)) +
           mset (filter is_at_cost (postings ent)) = mset (postings ent) \<and>
         subseq (filter is_simple (postings ent)) (postings ent) \<and>
         subseq (filter is_at_price (postings ent)) (postings ent) \<and>
         subseq (filter is_at_cost (postings ent)) (postings ent) \<and>
         (\<forall>p\<in>set (postings ent). \<forall>pos c pr.
            position p = Some pos \<and> cost (lot pos) = Some c \<and> price p = Some pr \<longrightarrow>
            p \<in> set (filter is_at_cost (postings ent)) \<and>
            p \<notin> set (filter is_at_price (postings ent)))"
proof -
  let ?ps = "postings ent"
  have "\<forall>p\<in>set ?ps. \<forall>pos c pr.
      position p = Some pos \<and> cost (lot pos) = Some c \<and> price p = Some pr \<longrightarrow>
      p \<in> set (filter is_at_cost ?ps) \<and> p \<notin> set (filter is_at_price ?ps)"
    by (auto simp: is_at_cost_def is_at_price_def)
  then show ?thesis
    using postings_by_type_filter[OF assms] classes_partition[of ?ps] by simp
qed

theorem postings_by_type_partition_witness:
  "list_all (\<lambda>p. position p \<noteq> None \<and> amounts_true example_env p) (postings buy_stock) \<and>
   postings_by_type example_env buy_stock =
     Inr ([posting_commission], [posting_cash], [posting_goog])"
  using postings_by_type_partition[OF buy_stock_positions] buy_stock_positions
  by (simp add: buy_stock_classes list_all_iff)

section \<open>Claims about splitting currency conversions\<close>

lemma conversion_loop_map:
  "conversion_loop env ent ps (es, rs) =
     (es @ map (currency_entry env ent) ps, rs @ map (posting_pos env) ps)"
  by (induction ps arbitrary: es rs) simp_all

text \<open>
  C10 says that \<^verbatim>\<open>split_currency_conversions\<close> returns \<^verbatim>\<open>(False, [entry])\<close> or
  \<^verbatim>\<open>(True, entries)\<close> for every transaction, and splits every transaction with a
  posting at cost and a posting at price. For a transaction with a posting without a
  position the classifier raises, so nothing is returned. Where the function returns,
  the first component is the value of \<^verbatim>\<open>postings_at_cost and postings_at_price\<close>, which
  is a list, although the docstring promises a boolean: for a transaction without a
  conversion it is the empty list and not \<^verbatim>\<open>False\<close>. And a transaction whose only
  price is zero is not split, since the classifier tests the truth of the price.
\<close>

theorem split_currency_conversions_not_as_stated:
  "split_currency_conversions example_env bare_only = Inl AttributeError \<and>
   split_currency_conversions example_env buy_stock_usd =
     Inr \<lparr>returned = (PyList [], [buy_stock_usd]), entry_after = buy_stock_usd\<rparr> \<and>
   split_currency_conversions example_env buy_stock_usd \<noteq>
     Inr \<lparr>returned = (PyBool False, [buy_stock_usd]), entry_after = buy_stock_usd\<rparr> \<and>
   is_at_cost (postings buy_stock_worthless ! 0) \<and>
   is_at_price (postings buy_stock_worthless ! 1) \<and>
   truth_of_result (split_currency_conversions example_env buy_stock_worthless) =
     Inr (False, [buy_stock_worthless], buy_stock_worthless)"
  by (simp add: split_currency_conversions_def postings_by_type_def bare_only_def
      posting_bare_def buy_stock_usd_def buy_stock_worthless_def posting_worthless_def
      posting_goog_def posting_commission_def py_and_def
      amount_true_def example_env_def zero_text_def truth_of_result_def py_truth_def
      is_at_cost_def is_at_price_def)

text \<open>
  C10, amended. For every transaction whose postings all have a position and whose
  costs and prices are all true amounts (not zero): when the postings do not contain
  both a posting at cost and a posting at price, the result has a first component that
  tests false and the entries \<^verbatim>\<open>[entry]\<close>, the transaction as it came; when they
  contain both, the first component tests true and the entries are one
  currency-conversion transaction per posting at price (the entry with the postings
  \<^verbatim>\<open>[posting_orig, posting_neg]\<close> and the narration extended), followed by one
  transaction whose postings are those at cost, then the simple ones, then one
  replacement posting per posting at price. In both cases the call leaves the input
  transaction as it was.
\<close>

theorem split_currency_conversions_entries:
  assumes "\<forall>p\<in>set (postings ent). position p \<noteq> None \<and> amounts_true env p"
  shows "truth_of_result (split_currency_conversions env ent) =
     (if (\<exists>p\<in>set (postings ent). is_at_cost p) \<and> (\<exists>p\<in>set (postings ent). is_at_price p)
      then Inr (True,
             map (currency_entry env ent) (filter is_at_price (postings ent)) @
             [entry_replace env ent
                (Some (filter is_at_cost (postings ent) @ filter is_simple (postings ent) @
                       map (posting_pos env) (filter is_at_price (postings ent))))
                None],
             ent)
      else Inr (False, [ent], ent))"
proof -
  let ?ps = "postings ent"
  have c: "filter is_at_cost ?ps \<noteq> [] \<longleftrightarrow> (\<exists>p\<in>set ?ps. is_at_cost p)"
    by (simp add: filter_empty_conv)
  have p: "filter is_at_price ?ps \<noteq> [] \<longleftrightarrow> (\<exists>p\<in>set ?ps. is_at_price p)"
    by (simp add: filter_empty_conv)
  show ?thesis
  proof (cases "(\<exists>p\<in>set ?ps. is_at_cost p) \<and> (\<exists>p\<in>set ?ps. is_at_price p)")
    case True
    with c p have "py_and (filter is_at_cost ?ps) (filter is_at_price ?ps) = filter is_at_price ?ps"
      "filter is_at_price ?ps \<noteq> []"
      by (auto simp: py_and_def)
    with True show ?thesis
      by (simp add: split_currency_conversions_def postings_by_type_filter[OF assms]
          conversion_loop_map truth_of_result_def py_truth_def Let_def)
  next
    case False
    with c p have "py_and (filter is_at_cost ?ps) (filter is_at_price ?ps) = []"
      by (auto simp: py_and_def)
    with False show ?thesis
      by (simp add: split_currency_conversions_def postings_by_type_filter[OF assms]
          truth_of_result_def py_truth_def Let_def)
  qed
qed

theorem split_currency_conversions_entries_witness:
  "list_all (\<lambda>p. position p \<noteq> None \<and> amounts_true example_env p) (postings buy_stock) \<and>
   truth_of_result (split_currency_conversions example_env buy_stock) =
     Inr (True,
          [buy_stock\<lparr>postings := [posting_cash, posting_neg example_env posting_cash],
             narration := ''Buy some stock with foreign currency funds (Currency conversion)''\<rparr>,
           buy_stock\<lparr>postings :=
             [posting_goog, posting_commission, posting_pos example_env posting_cash]\<rparr>],
          buy_stock)"
proof -
  have e: "(\<exists>p\<in>set (postings buy_stock). is_at_cost p) \<and>
      (\<exists>p\<in>set (postings buy_stock). is_at_price p)"
    using buy_stock_classes by (metis filter_empty_conv list.distinct(1))
  have n: "narration buy_stock = ''Buy some stock with foreign currency funds''"
    by (simp add: buy_stock_def)
  from split_currency_conversions_entries[OF buy_stock_positions] e
  show ?thesis
    using buy_stock_positions
    by (simp add: buy_stock_classes currency_entry_def example_env_def n list_all_iff)
qed
section \<open>Claims about the printers\<close>

lemma ledger_price_str_explicit:
  "price posting = Some pr \<Longrightarrow> ledger_price_str env posting = Inr ([], ''@ '' @ amount_str env pr)"
  by (simp add: ledger_price_str_def)

lemma ledger_price_str_at_cost:
  assumes "price posting = None" "position posting = Some pos" "cost (lot pos) = Some c"
    "entry posting = Some r" "store env r = Some ent"
    "\<forall>p\<in>set (postings ent). position p \<noteq> None"
  shows "ledger_price_str env posting =
     Inr ([Call_postings_by_type ent],
          if (\<exists>p\<in>set (postings ent). tests_at_price env p) \<and>
             (\<exists>p\<in>set (postings ent). tests_at_cost env p) \<and> amount_bool env c
          then ''@ '' @ amount_str env c else [])"
proof -
  have "filter (tests_at_cost env) (postings ent) \<noteq> [] \<longleftrightarrow>
      (\<exists>p\<in>set (postings ent). tests_at_cost env p)"
    "filter (tests_at_price env) (postings ent) \<noteq> [] \<longleftrightarrow>
      (\<exists>p\<in>set (postings ent). tests_at_price env p)"
    by (simp_all add: filter_empty_conv)
  then show ?thesis
    using assms(1-5) by (auto simp: ledger_price_str_def postings_by_type_tests[OF assms(6)])
qed

lemma buy_stock_usd_positions: "\<forall>p\<in>set (postings buy_stock_usd). position p \<noteq> None"
  by (simp add: buy_stock_usd_def posting_goog_def posting_commission_def)

lemma hledger_posting_ignores_price:
  "HLedgerPrinter_Posting env (posting\<lparr>price := pr\<rparr>) = HLedgerPrinter_Posting env posting"
  by (cases "account posting") (simp_all add: HLedgerPrinter_Posting_def posting_flag_def Let_def split_beta)

lemma hledger_posting_cost_field:
  assumes "account posting = Some acct" "position posting = Some pos"
    "position_strs env pos = (amount_s, cost_s)" "cost_s \<noteq> []"
  shows "HLedgerPrinter_Posting env posting =
     Inr [Write (rstrip (hledger_posting_str (posting_flag posting @ ljust 62 acct) amount_s
                   (''@ '' @ rstrip_chars ''}'' (lstrip_chars ''{'' cost_s)))),
          Write [CHR 0x0A]]"
  using assms by (simp add: HLedgerPrinter_Posting_def Let_def)

lemma ledger_price_str_calls:
  "ledger_price_str env posting = Inr (calls, s) \<Longrightarrow> \<forall>ev\<in>set calls. \<not> is_fill_call ev"
  by (auto simp: ledger_price_str_def is_fill_call_def
      split: option.splits sum.splits if_splits prod.splits)

lemma posting_no_fill_call:
  "Posting_method cls env posting = Inr evs \<Longrightarrow> \<forall>ev\<in>set evs. \<not> is_fill_call ev"
proof (cases cls)
  case LedgerPrinter
  assume "Posting_method cls env posting = Inr evs"
  with LedgerPrinter have "LedgerPrinter_Posting env posting = Inr evs"
    by (simp add: Posting_method_def)
  then show ?thesis
    by (auto simp: LedgerPrinter_Posting_def Let_def is_fill_call_def
        split: option.splits sum.splits prod.splits dest!: ledger_price_str_calls)
next
  case HLedgerPrinter
  assume "Posting_method cls env posting = Inr evs"
  with HLedgerPrinter have "HLedgerPrinter_Posting env posting = Inr evs"
    by (simp add: Posting_method_def)
  then show ?thesis
    by (auto simp: HLedgerPrinter_Posting_def Let_def is_fill_call_def
        split: option.splits prod.splits)
qed

lemma for_postings_no_fill_call:
  "for_postings (Posting_method cls env) ps = Inr evs \<Longrightarrow> \<forall>ev\<in>set evs. \<not> is_fill_call ev"
proof (induction ps arbitrary: evs)
  case Nil
  then show ?case by simp
next
  case (Cons p ps)
  from Cons.prems obtain e1 e2 where 1: "Posting_method cls env p = Inr e1"
    and 2: "for_postings (Posting_method cls env) ps = Inr e2" and evs: "evs = e1 @ e2"
    by (auto split: sum.splits)
  from posting_no_fill_call[OF 1] Cons.IH[OF 2] evs show ?case by auto
qed

lemma example_dates:
  "strftime_Ymd \<lparr>year = 2014, month = 11, day = 2\<rparr> = ''2014/11/02''"
  by (simp add: strftime_Ymd_def)

lemma example_fill:
  "fill_residual_posting example_env ent acct =
     Inr (ent\<lparr>postings := postings ent @ [rounding_posting ent acct]\<rparr>)"
  by (simp add: example_env_def)

lemma tagged_header:
  "header_line example_env
     (buy_stock_tagged\<lparr>postings := postings buy_stock_tagged @
        [rounding_posting buy_stock_tagged ROUNDING_ACCOUNT]\<rparr>) =
   ''2014/11/02 * ;; Tag: #invest ;; Tag: #trip ;; Link: ^inv42 Broker | Buy stock'' @ [CHR 0x0A]"
proof -
  have s: "sort [''trip'', ''invest''] = [''invest'', ''trip'']" "sort [''inv42''] = [''inv42'']"
    by code_simp+
  show ?thesis
    by (simp add: header_line_def header_strings_def buy_stock_tagged_def buy_stock_def
        example_env_def example_dates or_empty_def truthy_def s)
qed

lemma tagged_postings:
  "for_postings (Posting_method LedgerPrinter example_env)
     (postings buy_stock_tagged @ [rounding_posting buy_stock_tagged ROUNDING_ACCOUNT]) =
   Inr [Call_postings_by_type buy_stock,
        Write (''  '' @ ljust 64 ''Expenses:Commissions'' @ '' '' @ rjust 16 ''9.95 USD''),
        Write [CHR 0x0A],
        Call_postings_by_type buy_stock,
        Write (''  '' @ ljust 64 ''Equity:Rounding'' @ '' '' @ rjust 16 ''0.0047 USD''),
        Write [CHR 0x0A]]"
  by code_simp

lemma ledger_posting_price_field:
  assumes "account posting = Some acct" "position posting = Some pos" "cost (lot pos) = Some c"
    "entry posting = Some r" "store env r = Some ent"
    "\<forall>p\<in>set (postings ent). position p \<noteq> None"
  shows "LedgerPrinter_Posting env posting =
     Inr ((case price posting of Some pr \<Rightarrow> [] | None \<Rightarrow> [Call_postings_by_type ent]) @
          [Write (rstrip (ledger_posting_str (posting_flag posting @ ljust 62 acct)
                    (fst (position_strs env pos)) (snd (position_strs env pos))
                    (case price posting of
                       Some pr \<Rightarrow> ''@ '' @ amount_str env pr
                     | None \<Rightarrow>
                         if (\<exists>p\<in>set (postings ent). tests_at_price env p) \<and>
                            (\<exists>p\<in>set (postings ent). tests_at_cost env p) \<and>
                            amount_bool env c
                         then ''@ '' @ amount_str env c else []))),
           Write [CHR 0x0A]])"
proof (cases "price posting")
  case None
  from ledger_price_str_at_cost[OF None assms(2-6)] None assms(1,2) show ?thesis
    by (simp add: LedgerPrinter_Posting_def split_beta)
next
  case (Some pr)
  from ledger_price_str_explicit[OF Some, of env] Some assms(1,2) show ?thesis
    by (simp add: LedgerPrinter_Posting_def split_beta)
qed

lemma ledger_posting_price_field_example:
  "LedgerPrinter_Posting example_env posting_goog =
     Inr [Call_postings_by_type buy_stock,
          Write (''  '' @ ljust 64 ''Assets:CA:Investment:GOOG'' @ '' '' @ rjust 16 ''5 GOOG'' @
                 '' '' @ rjust 16 ''{520.0 USD}'' @ '' '' @ rjust 16 ''@ 520.0 USD''),
          Write [CHR 0x0A]] \<and>
   LedgerPrinter_Posting example_env (postings buy_stock_usd ! 0) =
     Inr [Call_postings_by_type buy_stock_usd,
          Write (''  '' @ ljust 64 ''Assets:CA:Investment:GOOG'' @ '' '' @ rjust 16 ''5 GOOG'' @
                 '' '' @ rjust 16 ''{520.0 USD}''),
          Write [CHR 0x0A]]"
proof -
  let ?pos = "\<lparr>lot = \<lparr>lot_currency = ''GOOG'',
                       cost = Some \<lparr>number = ''520.0'', currency = ''USD''\<rparr>, lot_date = None\<rparr>,
                position_number = ''5''\<rparr>"
  let ?c = "\<lparr>number = ''520.0'', currency = ''USD''\<rparr>"
  have a: "account posting_goog = Some ''Assets:CA:Investment:GOOG''"
    and p: "position posting_goog = Some ?pos" and c: "cost (lot ?pos) = Some ?c"
    and e: "entry posting_goog = Some 0" and s: "store example_env 0 = Some buy_stock"
    by (simp_all add: posting_goog_def example_env_def)
  have both: "(\<exists>p\<in>set (postings buy_stock). tests_at_price example_env p) \<and>
      (\<exists>p\<in>set (postings buy_stock). tests_at_cost example_env p) \<and>
      amount_bool example_env ?c"
    by (simp add: buy_stock_def posting_goog_def posting_commission_def posting_cash_def
        tests_at_cost_def tests_at_price_def amount_true_def example_env_def zero_text_def)
  have all: "\<forall>p\<in>set (postings buy_stock). position p \<noteq> None"
    using buy_stock_positions by blast
  have r1: "rstrip (ledger_posting_str (posting_flag posting_goog @ ljust 62 ''Assets:CA:Investment:GOOG'')
        (fst (position_strs example_env ?pos)) (snd (position_strs example_env ?pos))
        (''@ '' @ amount_str example_env ?c)) =
      ''  '' @ ljust 64 ''Assets:CA:Investment:GOOG'' @ '' '' @ rjust 16 ''5 GOOG'' @
      '' '' @ rjust 16 ''{520.0 USD}'' @ '' '' @ rjust 16 ''@ 520.0 USD''"
    by code_simp
  have first: "LedgerPrinter_Posting example_env posting_goog =
     Inr [Call_postings_by_type buy_stock,
          Write (''  '' @ ljust 64 ''Assets:CA:Investment:GOOG'' @ '' '' @ rjust 16 ''5 GOOG'' @
                 '' '' @ rjust 16 ''{520.0 USD}'' @ '' '' @ rjust 16 ''@ 520.0 USD''),
          Write [CHR 0x0A]]"
    using ledger_posting_price_field[OF a p c e s all] both r1
    by (simp add: posting_goog_def)
  let ?g = "postings buy_stock_usd ! 0"
  have g: "?g = posting_goog\<lparr>entry := Some 2\<rparr>" by (simp add: buy_stock_usd_def)
  have a2: "account ?g = Some ''Assets:CA:Investment:GOOG''"
    and p2: "position ?g = Some ?pos"
    and e2: "entry ?g = Some 2" and s2: "store example_env 2 = Some buy_stock_usd"
    and pr2: "price ?g = None"
    by (simp_all add: g posting_goog_def example_env_def)
  have none: "\<not> (\<exists>p\<in>set (postings buy_stock_usd). tests_at_price example_env p)"
    by (simp add: buy_stock_usd_def posting_goog_def posting_commission_def
        tests_at_cost_def tests_at_price_def amount_true_def example_env_def zero_text_def)
  have r2: "rstrip (ledger_posting_str (posting_flag ?g @ ljust 62 ''Assets:CA:Investment:GOOG'')
        (fst (position_strs example_env ?pos)) (snd (position_strs example_env ?pos)) []) =
      ''  '' @ ljust 64 ''Assets:CA:Investment:GOOG'' @ '' '' @ rjust 16 ''5 GOOG'' @
      '' '' @ rjust 16 ''{520.0 USD}''"
    by code_simp
  have second: "LedgerPrinter_Posting example_env ?g =
     Inr [Call_postings_by_type buy_stock_usd,
          Write (''  '' @ ljust 64 ''Assets:CA:Investment:GOOG'' @ '' '' @ rjust 16 ''5 GOOG'' @
                 '' '' @ rjust 16 ''{520.0 USD}''),
          Write [CHR 0x0A]]"
    using ledger_posting_price_field[OF a2 p2 c e2 s2 buy_stock_usd_positions] none r2 pr2
    by simp
  from first second show ?thesis by simp
qed


text \<open>
  C1 says that in every transaction with a posting at cost and a posting at price, every
  posting at cost without a price of its own is rendered with the price \<^verbatim>\<open>@ <cost>\<close>.
  \<^verbatim>\<open>LedgerPrinter.Posting\<close> has a branch for a posting without a position, and
  \<^verbatim>\<open>HLedgerPrinter.Posting\<close> renders one; but when the transaction has such a posting,
  the call of \<^verbatim>\<open>postings_by_type\<close> at line 203 raises \<^verbatim>\<open>AttributeError\<close>, and with it
  the rendering of the posting at cost and of the whole transaction.
\<close>

theorem ledger_posting_raises:
  "is_at_cost (postings buy_stock_bare ! 0) \<and> price (postings buy_stock_bare ! 0) = None \<and>
   is_at_price (postings buy_stock_bare ! 2) \<and>
   entry (postings buy_stock_bare ! 0) = Some 1 \<and>
   store example_env 1 = Some buy_stock_bare \<and>
   LedgerPrinter_Posting example_env (postings buy_stock_bare ! 0) = Inl AttributeError \<and>
   printer_call LedgerPrinter example_env (Transaction buy_stock_bare) = Inl AttributeError"
proof -
  have 1: "is_at_cost (postings buy_stock_bare ! 0) \<and> price (postings buy_stock_bare ! 0) = None \<and>
      is_at_price (postings buy_stock_bare ! 2) \<and>
      entry (postings buy_stock_bare ! 0) = Some 1 \<and>
      store example_env 1 = Some buy_stock_bare \<and>
      LedgerPrinter_Posting example_env (postings buy_stock_bare ! 0) = Inl AttributeError"
    by code_simp
  have "for_postings (Posting_method LedgerPrinter example_env)
      (postings buy_stock_bare @ [rounding_posting buy_stock_bare ROUNDING_ACCOUNT]) =
      Inl AttributeError"
    by code_simp
  then have "printer_call LedgerPrinter example_env (Transaction buy_stock_bare) =
      Inl AttributeError"
    by (simp add: printer_call_def LedgerPrinter_Transaction_def example_fill)
  with 1 show ?thesis by simp
qed


text \<open>
  C3 says that the tags and links of a transaction are rendered as comment lines of their
  own before the header line. \<^verbatim>\<open>LedgerPrinter.Transaction\<close> appends them to the list
  \<^verbatim>\<open>strings\<close>, which it joins into the header line: they are on the header line,
  between the flag and the payee. The rendering of a transaction with two tags, a link
  and a payee:
\<close>

theorem transaction_tags_in_header:
  "printer_call LedgerPrinter example_env (Transaction buy_stock_tagged) =
     Inr (''2014/11/02 * ;; Tag: #invest ;; Tag: #trip ;; Link: ^inv42 Broker | Buy stock'' @
          [CHR 0x0A] @
          ''  '' @ ljust 64 ''Expenses:Commissions'' @ '' '' @ rjust 16 ''9.95 USD'' @ [CHR 0x0A] @
          ''  '' @ ljust 64 ''Equity:Rounding'' @ '' '' @ rjust 16 ''0.0047 USD'' @ [CHR 0x0A])"
  using tagged_header tagged_postings
  by (simp add: printer_call_def LedgerPrinter_Transaction_def example_fill getvalue_def)

text \<open>
  C4 says that the HLedger dialect shows the price of a posting in the slot of the cost
  when there is no cost. \<^verbatim>\<open>HLedgerPrinter.Posting\<close> computes \<^verbatim>\<open>price_str\<close> and
  leaves it out of the line it formats: a posting with a price and no cost is rendered
  with its amount alone.
\<close>

theorem hledger_posting_drops_price:
  "price posting_cash = Some \<lparr>number = ''0.8879'', currency = ''USD''\<rparr> \<and>
   HLedgerPrinter_Posting example_env posting_cash =
     Inr [Write (''  '' @ ljust 64 ''Assets:CA:Investment:Cash'' @ '' '' @
                 rjust 16 ''-2939.46 CAD''),
          Write [CHR 0x0A]]"
  by code_simp

lemma for_postings_rendered:
  "for_postings f ps = Inr evs \<longleftrightarrow>
     (\<exists>pes. list_all2 (\<lambda>posting es. f posting = Inr es) ps pes \<and> evs = concat pes)"
proof (induction ps arbitrary: evs)
  case Nil
  show ?case by auto
next
  case (Cons p ps)
  show ?case
  proof
    assume "for_postings f (p # ps) = Inr evs"
    then obtain e1 e2 where 1: "f p = Inr e1" and 2: "for_postings f ps = Inr e2"
      and evs: "evs = e1 @ e2"
      by (auto split: sum.splits)
    from 2 Cons.IH obtain pes where "list_all2 (\<lambda>posting es. f posting = Inr es) ps pes"
      "e2 = concat pes" by blast
    with 1 evs have "list_all2 (\<lambda>posting es. f posting = Inr es) (p # ps) (e1 # pes) \<and>
        evs = concat (e1 # pes)" by simp
    then show "\<exists>pes. list_all2 (\<lambda>posting es. f posting = Inr es) (p # ps) pes \<and>
        evs = concat pes" by blast
  next
    assume "\<exists>pes. list_all2 (\<lambda>posting es. f posting = Inr es) (p # ps) pes \<and> evs = concat pes"
    then obtain pes where l: "list_all2 (\<lambda>posting es. f posting = Inr es) (p # ps) pes"
      and evs: "evs = concat pes" by blast
    from l obtain e1 pes' where pes: "pes = e1 # pes'" and 1: "f p = Inr e1"
      and l': "list_all2 (\<lambda>posting es. f posting = Inr es) ps pes'"
      by (auto simp: list_all2_Cons1)
    from l' Cons.IH have "for_postings f ps = Inr (concat pes')" by blast
    with 1 pes evs show "for_postings f (p # ps) = Inr evs" by simp
  qed
qed

lemma getvalue_concat: "getvalue (concat pes) = concat (map getvalue pes)"
  by (induction pes) (simp_all add: getvalue_def)

text \<open>
  C7. In both dialects the rendering of a transaction calls
  \<^verbatim>\<open>fill_residual_posting\<close> once, with the account \<^verbatim>\<open>Equity:Rounding\<close>; the call is
  the first thing that happens, before any call of the classifier and any write. It is
  followed by the header line of the transaction that the call returns and then, for
  each posting of that transaction in order, by what \<^verbatim>\<open>cls.Posting\<close> does for that
  posting: the text of the record is the header line and these posting lines.
\<close>

theorem transaction_fills_residual_once:
  assumes "LedgerPrinter_Transaction cls env ent0 = Inr evs"
  shows "\<exists>ent pes.
     fill_residual_posting env ent0 ''Equity:Rounding'' = Inr ent \<and>
     list_all2 (\<lambda>posting es. Posting_method cls env posting = Inr es) (postings ent) pes \<and>
     evs = Call_fill_residual_posting ent0 ''Equity:Rounding'' #
           Write (header_line env ent) # concat pes \<and>
     filter is_fill_call evs = [Call_fill_residual_posting ent0 ''Equity:Rounding''] \<and>
     printer_call cls env (Transaction ent0) =
       Inr (header_line env ent @ concat (map getvalue pes))"
proof -
  from assms obtain ent pevs where
    f: "fill_residual_posting env ent0 ROUNDING_ACCOUNT = Inr ent"
    and p: "for_postings (Posting_method cls env) (postings ent) = Inr pevs"
    and e: "evs = Call_fill_residual_posting ent0 ROUNDING_ACCOUNT #
              Write (header_line env ent) # pevs"
    by (auto simp: LedgerPrinter_Transaction_def split: sum.splits)
  from p obtain pes where
    l: "list_all2 (\<lambda>posting es. Posting_method cls env posting = Inr es) (postings ent) pes"
    and c: "pevs = concat pes"
    unfolding for_postings_rendered by blast
  from for_postings_no_fill_call[OF p] have "filter is_fill_call pevs = []"
    by (simp add: filter_empty_conv)
  with e have "filter is_fill_call evs = [Call_fill_residual_posting ent0 ROUNDING_ACCOUNT]"
    by (simp add: is_fill_call_def)
  moreover have "getvalue evs = header_line env ent @ concat (map getvalue pes)"
    unfolding e c using getvalue_concat[of pes] by (simp add: getvalue_def)
  with assms have
    "printer_call cls env (Transaction ent0) =
       Inr (header_line env ent @ concat (map getvalue pes))"
    by (simp add: printer_call_def)
  ultimately show ?thesis
    using f l e c by (auto simp: ROUNDING_ACCOUNT_def)
qed

theorem transaction_fills_residual_once_witness:
  "\<exists>evs ent pes.
     LedgerPrinter_Transaction LedgerPrinter example_env buy_stock = Inr evs \<and>
     fill_residual_posting example_env buy_stock ''Equity:Rounding'' = Inr ent \<and>
     postings ent = postings buy_stock @ [rounding_posting buy_stock ''Equity:Rounding''] \<and>
     list_all2 (\<lambda>posting es. LedgerPrinter_Posting example_env posting = Inr es)
       (postings ent) pes \<and>
     length pes = 4 \<and>
     evs = Call_fill_residual_posting buy_stock ''Equity:Rounding'' #
           Write (header_line example_env ent) # concat pes \<and>
     filter is_fill_call evs = [Call_fill_residual_posting buy_stock ''Equity:Rounding'']"
proof -
  have "case for_postings (Posting_method LedgerPrinter example_env)
          (postings buy_stock @ [rounding_posting buy_stock ROUNDING_ACCOUNT]) of
          Inl err \<Rightarrow> False | Inr evs \<Rightarrow> True"
    by code_simp
  then obtain evs where evs: "LedgerPrinter_Transaction LedgerPrinter example_env buy_stock = Inr evs"
    by (auto simp: LedgerPrinter_Transaction_def example_fill split: sum.splits)
  from transaction_fills_residual_once[OF evs] obtain ent pes where
    f: "fill_residual_posting example_env buy_stock ''Equity:Rounding'' = Inr ent"
    and l: "list_all2 (\<lambda>posting es. Posting_method LedgerPrinter example_env posting = Inr es)
        (postings ent) pes"
    and e: "evs = Call_fill_residual_posting buy_stock ''Equity:Rounding'' #
              Write (header_line example_env ent) # concat pes"
    and c: "filter is_fill_call evs = [Call_fill_residual_posting buy_stock ''Equity:Rounding'']"
    by blast
  from f have ps: "postings ent =
      postings buy_stock @ [rounding_posting buy_stock ''Equity:Rounding'']"
    by (auto simp: example_fill)
  from l have "length pes = length (postings ent)" by (simp add: list_all2_lengthD)
  with ps have n: "length pes = 4" by (simp add: buy_stock_def)
  from l have "list_all2 (\<lambda>posting es. LedgerPrinter_Posting example_env posting = Inr es)
      (postings ent) pes"
    by (simp add: Posting_method_def)
  with evs f e c ps n show ?thesis by blast
qed

text \<open>
  C8. For every Open directive the Ledger dialect renders an \<^verbatim>\<open>account\<close> line and,
  when the list of currencies is not empty, one \<^verbatim>\<open>assert\<close> line with one
  \<^verbatim>\<open>commodity == "<ccy>"\<close> clause per currency, joined by \<^verbatim>\<open>|\<close>; the HLedger dialect
  renders one comment line, whatever the currencies.
\<close>

theorem open_rendering:
  "printer_call LedgerPrinter env (Open ent) =
     Inr (''account '' @ ljust 47 (open_account ent) @ [CHR 0x0A] @
          (case currencies ent of
             None \<Rightarrow> []
           | Some ccys \<Rightarrow>
               if ccys = [] then []
               else ''  assert '' @
                    join '' | '' (map (\<lambda>ccy. ''commodity == '' @ [CHR 0x22] @ ccy @ [CHR 0x22]) ccys) @
                    [CHR 0x0A])) \<and>
   printer_call HLedgerPrinter env (Open ent) =
     Inr ('';; Open: '' @ date_str env (open_date ent) @ '' close '' @ open_account ent @
          [CHR 0x0A])"
  by (simp add: printer_call_def LedgerPrinter_Open_def HLedgerPrinter_Open_def getvalue_def
      split: option.split)

theorem open_rendering_witness:
  "printer_call LedgerPrinter example_env (Open open_usd_eur) =
     Inr (''account Assets:Cash'' @ replicate 36 (CHR '' '') @ [CHR 0x0A] @
          ''  assert commodity == '' @ [CHR 0x22] @ ''USD'' @ [CHR 0x22] @
          '' | commodity == '' @ [CHR 0x22] @ ''EUR'' @ [CHR 0x22] @ [CHR 0x0A]) \<and>
   printer_call HLedgerPrinter example_env (Open open_usd_eur) =
     Inr ('';; Open: 2014/01/01 close Assets:Cash'' @ [CHR 0x0A])"
proof -
  have "date_str example_env (open_date open_usd_eur) = ''2014/01/01''"
    by (simp add: example_env_def open_usd_eur_def strftime_Ymd_def)
  moreover have "ljust 47 (open_account open_usd_eur) = ''Assets:Cash'' @ replicate 36 (CHR '' '')"
    by code_simp
  ultimately show ?thesis
    using open_rendering[of example_env open_usd_eur]
    by (simp add: open_usd_eur_def)
qed

text \<open>
  C9. For every Balance directive the rendering is the empty text, in both dialects.
\<close>

theorem balance_renders_nothing:
  "printer_call LedgerPrinter env (Balance ent) = Inr [] \<and>
   printer_call HLedgerPrinter env (Balance ent) = Inr []"
  by (simp add: printer_call_def LedgerPrinter_Balance_def getvalue_def)

theorem balance_renders_nothing_witness:
  "printer_call LedgerPrinter example_env (Balance balance_cash) = Inr [] \<and>
   printer_call HLedgerPrinter example_env (Balance balance_cash) = Inr []"
  using balance_renders_nothing[of example_env balance_cash] by simp

end
